theory Spec2Isabelle
  imports Main "HOL-Library.Sublist" "HOL-Library.AList"
begin

section \<open>Path strings: the functions of posixpath the replicator calls\<close>

text \<open>
  Paths are Python strings, here \<^typ>\<open>string\<close>. The functions below follow the
  pure-Python definitions of \<^verbatim>\<open>posixpath\<close>: \<^verbatim>\<open>join\<close>, \<^verbatim>\<open>dirname\<close>,
  \<^verbatim>\<open>normpath\<close>, \<^verbatim>\<open>abspath\<close> and \<^verbatim>\<open>relpath\<close>. The working directory that
  \<^verbatim>\<open>abspath\<close> reads from the process is an explicit argument.
\<close>

datatype error =
    FileNotFound | NotADirectory | IsADirectory | FileExists
  | PermissionDenied | DiskFull | ValueError | RecursionError

text \<open>\<^verbatim>\<open>s.split('/')\<close>\<close>

fun split_sep :: "string \<Rightarrow> string list" where
  "split_sep [] = [[]]"
| "split_sep (c # cs) =
     (if c = CHR ''/'' then [] # split_sep cs
      else (case split_sep cs of [] \<Rightarrow> [[c]] | w # ws \<Rightarrow> (c # w) # ws))"

text \<open>\<^verbatim>\<open>'/'.join(comps)\<close>\<close>

fun sep_join :: "string list \<Rightarrow> string" where
  "sep_join [] = []"
| "sep_join [w] = w"
| "sep_join (w # v # ws) = w @ CHR ''/'' # sep_join (v # ws)"

text \<open>\<^verbatim>\<open>posixpath.join(a, b)\<close>\<close>

definition join :: "string \<Rightarrow> string \<Rightarrow> string" where
  "join a b =
     (if prefix ''/'' b then b
      else if a = [] \<or> last a = CHR ''/'' then a @ b
      else a @ CHR ''/'' # b)"

text \<open>\<^verbatim>\<open>posixpath.dirname(p)\<close>: everything up to the last slash, with trailing
  slashes stripped unless the head consists of slashes only.\<close>

definition dirname :: "string \<Rightarrow> string" where
  "dirname p =
     (let head = rev (dropWhile (\<lambda>c. c \<noteq> CHR ''/'') (rev p))
      in if head \<noteq> [] \<and> head \<noteq> replicate (length head) CHR ''/''
         then rev (dropWhile (\<lambda>c. c = CHR ''/'') (rev head))
         else head)"

text \<open>One round of the loop of \<^verbatim>\<open>posixpath.normpath\<close> over the components.\<close>

definition norm_step :: "bool \<Rightarrow> string list \<Rightarrow> string \<Rightarrow> string list" where
  "norm_step initial_slashes new_comps part =
     (if part = [] \<or> part = ''.'' then new_comps
      else if part \<noteq> ''..'' \<or> (\<not> initial_slashes \<and> new_comps = [])
                \<or> (new_comps \<noteq> [] \<and> last new_comps = ''..'')
      then new_comps @ [part]
      else if new_comps \<noteq> [] then butlast new_comps
      else new_comps)"

definition normpath :: "string \<Rightarrow> string" where
  "normpath p =
     (if p = [] then ''.''
      else
        let initial_slashes =
              (if prefix ''/'' p
               then (if prefix ''//'' p \<and> \<not> prefix ''///'' p then 2 else 1)
               else (0::nat));
            comps = foldl (norm_step (0 < initial_slashes)) [] (split_sep p);
            q = replicate initial_slashes CHR ''/'' @ sep_join comps
        in if q = [] then ''.'' else q)"

text \<open>\<^verbatim>\<open>posixpath.abspath(p)\<close>, with \<^verbatim>\<open>os.getcwd()\<close> given as \<open>wd\<close>.\<close>

definition abspath :: "string \<Rightarrow> string \<Rightarrow> string" where
  "abspath wd p = normpath (if prefix ''/'' p then p else join wd p)"

text \<open>\<^verbatim>\<open>posixpath.relpath(p, start)\<close>: raises \<^verbatim>\<open>ValueError\<close> on the empty path.\<close>

definition relpath :: "string \<Rightarrow> string \<Rightarrow> string \<Rightarrow> error + string" where
  "relpath wd p start =
     (if p = [] then Inl ValueError
      else
        let start_list = filter (\<lambda>x. x \<noteq> []) (split_sep (abspath wd start));
            path_list = filter (\<lambda>x. x \<noteq> []) (split_sep (abspath wd p));
            i = length (longest_common_prefix start_list path_list);
            rel_list = replicate (length start_list - i) ''..'' @ drop i path_list
        in case rel_list of
             [] \<Rightarrow> Inr ''.''
           | r # rs \<Rightarrow> Inr (foldl join r rs))"

section \<open>Programs with state and exceptions\<close>

text \<open>
  A method body is a function from the state to a result and the state at the point
  of return or raise. \<open>Inl e\<close> is the exception \<open>e\<close> propagating out of the call.
\<close>

type_synonym ('a, 's) prog = "'s \<Rightarrow> (error + 'a) \<times> 's"

definition ret :: "'a \<Rightarrow> ('a, 's) prog" where
  "ret x = (\<lambda>s. (Inr x, s))"

definition raise :: "error \<Rightarrow> ('a, 's) prog" where
  "raise e = (\<lambda>s. (Inl e, s))"

definition bind :: "('a, 's) prog \<Rightarrow> ('a \<Rightarrow> ('b, 's) prog) \<Rightarrow> ('b, 's) prog" where
  "bind m f = (\<lambda>s. case m s of (Inl e, s') \<Rightarrow> (Inl e, s') | (Inr x, s') \<Rightarrow> f x s')"

text \<open>A pure computation that may raise.\<close>

definition lift :: "error + 'a \<Rightarrow> ('a, 's) prog" where
  "lift r = (\<lambda>s. (r, s))"

text \<open>\<^verbatim>\<open>try: m  except: pass\<close>: every exception of \<open>m\<close> is swallowed.\<close>

definition try_pass :: "(unit, 's) prog \<Rightarrow> (unit, 's) prog" where
  "try_pass m = (\<lambda>s. case m s of (Inl e, s') \<Rightarrow> (Inr (), s') | (Inr x, s') \<Rightarrow> (Inr (), s'))"

text \<open>\<^verbatim>\<open>for x in xs: body\<close>\<close>

fun for_each :: "'a list \<Rightarrow> ('a \<Rightarrow> (unit, 's) prog) \<Rightarrow> (unit, 's) prog" where
  "for_each [] body = ret ()"
| "for_each (x # xs) body = bind (body x) (\<lambda>_. for_each xs body)"

definition modify :: "('s \<Rightarrow> 's) \<Rightarrow> (unit, 's) prog" where
  "modify f = (\<lambda>s. (Inr (), f s))"

section \<open>Python sets of strings\<close>

text \<open>
  A Python set is a list without repetitions; \<open>set_add\<close> and \<open>set_discard\<close> are
  \<^verbatim>\<open>set.add\<close> and \<^verbatim>\<open>set.discard\<close>. Iteration runs in list order (Python leaves
  the order open).
\<close>

definition set_add :: "'a \<Rightarrow> 'a list \<Rightarrow> 'a list" where
  "set_add x xs = (if x \<in> set xs then xs else xs @ [x])"

definition set_discard :: "'a \<Rightarrow> 'a list \<Rightarrow> 'a list" where
  "set_discard x xs = removeAll x xs"

section \<open>The collaborators: file system, events, requests\<close>

text \<open>
  Modelled from the spec: the class \<^verbatim>\<open>FileSystem\<close> of module \<^verbatim>\<open>file_system\<close> is
  not part of the sources. Its capability surface (spec section 6) is taken as a
  parameter: a record of operations over the state \<open>'f\<close> of the file system
  object. Queries leave the state alone; a call that raises leaves the state as it
  was. The callback argument of \<^verbatim>\<open>watchdir\<close> is always \<^verbatim>\<open>self.handle_event\<close> and is
  left out.
\<close>

record 'f FileSystem =
  listdir :: "string \<Rightarrow> 'f \<Rightarrow> error + string list"
  isdir :: "string \<Rightarrow> 'f \<Rightarrow> error + bool"
  exists :: "string \<Rightarrow> 'f \<Rightarrow> error + bool"
  readfile :: "string \<Rightarrow> 'f \<Rightarrow> error + string"
  writefile :: "string \<Rightarrow> string \<Rightarrow> 'f \<Rightarrow> error + 'f"
  removefile :: "string \<Rightarrow> 'f \<Rightarrow> error + 'f"
  removedir :: "string \<Rightarrow> 'f \<Rightarrow> error + 'f"
  makedirs :: "string \<Rightarrow> 'f \<Rightarrow> error + 'f"
  watchdir :: "string \<Rightarrow> 'f \<Rightarrow> error + 'f"
  unwatchdir :: "string \<Rightarrow> 'f \<Rightarrow> error + 'f"

datatype FileSystemEventType = FILE_OR_SUBDIR_ADDED | FILE_MODIFIED | FILE_OR_SUBDIR_REMOVED

datatype FileSystemEvent = FileSystemEvent FileSystemEventType string

text \<open>The request dictionaries, by their \<^verbatim>\<open>'action'\<close>: \<^verbatim>\<open>write\<close> (relative path,
  content), \<^verbatim>\<open>mkdir\<close>, \<^verbatim>\<open>remove\<close> (relative path) and \<^verbatim>\<open>sync\<close> (dirs, files).\<close>

datatype request =
    Write string string
  | MkDir string
  | Remove string
  | Sync "string list" "string list"

section \<open>ReplicatorSource\<close>

text \<open>
  The fields of the object that never change after construction, with two values the
  interpreter supplies: the working directory and the number of nested calls it
  allows (\<^verbatim>\<open>RecursionError\<close> beyond).
\<close>

record ('f, 'r) ReplicatorSource =
  fs :: "'f FileSystem"
  dir_path :: string
  rpc_handle :: "request \<Rightarrow> 'r \<Rightarrow> error + 'r"
  cwd :: string
  recursion_limit :: nat

text \<open>What changes: the file system object (its watches), the far side of the
  transport, and the two watch sets.\<close>

record ('f, 'r) source_state =
  fs_state :: 'f
  rpc_state :: 'r
  watch_dirs :: "string list"
  watch_files :: "string list"

definition fs_query :: "('f \<Rightarrow> error + 'a) \<Rightarrow> ('a, ('f, 'r) source_state) prog" where
  "fs_query q = (\<lambda>s. (q (fs_state s), s))"

definition fs_call :: "('f \<Rightarrow> error + 'f) \<Rightarrow> (unit, ('f, 'r) source_state) prog" where
  "fs_call c = (\<lambda>s. case c (fs_state s) of
                        Inl e \<Rightarrow> (Inl e, s)
                      | Inr f \<Rightarrow> (Inr (), s\<lparr>fs_state := f\<rparr>))"

text \<open>\<^verbatim>\<open>self._rpc_handle(request)\<close>\<close>

definition send :: "('f, 'r) ReplicatorSource \<Rightarrow> request \<Rightarrow> (unit, ('f, 'r) source_state) prog" where
  "send self request = (\<lambda>s. case rpc_handle self request (rpc_state s) of
                        Inl e \<Rightarrow> (Inl e, s)
                      | Inr r \<Rightarrow> (Inr (), s\<lparr>rpc_state := r\<rparr>))"

text \<open>
  \<^verbatim>\<open>_replicate_directory\<close>. \<open>replicate_item\<close> is the body of its loop, with the
  recursive call as the argument \<open>recurse\<close>; the first argument of
  \<open>replicate_directory\<close> is the number of nested calls still allowed.
\<close>

definition replicate_item ::
  "(string \<Rightarrow> (unit, ('f, 'r) source_state) prog) \<Rightarrow> ('f, 'r) ReplicatorSource \<Rightarrow> string \<Rightarrow>
     string \<Rightarrow> (unit, ('f, 'r) source_state) prog" where
  "replicate_item recurse self current_path item =
     (let item_path = join current_path item in
      bind (lift (relpath (cwd self) item_path (dir_path self))) (\<lambda>relative_path.
      bind (fs_query (isdir (fs self) item_path)) (\<lambda>is_dir.
        if is_dir then
          bind (send self (MkDir relative_path)) (\<lambda>_.
          bind (modify (watch_dirs_update (set_add relative_path))) (\<lambda>_.
          bind (fs_call (watchdir (fs self) item_path)) (\<lambda>_.
            recurse item_path)))
        else
          bind (fs_query (readfile (fs self) item_path)) (\<lambda>content.
          bind (send self (Write relative_path content)) (\<lambda>_.
            modify (watch_files_update (set_add relative_path)))))))"

primrec replicate_directory ::
  "nat \<Rightarrow> ('f, 'r) ReplicatorSource \<Rightarrow> string \<Rightarrow> (unit, ('f, 'r) source_state) prog" where
  "replicate_directory 0 self current_path = raise RecursionError"
| "replicate_directory (Suc depth) self current_path =
     bind (fs_query (listdir (fs self) current_path)) (\<lambda>items.
       for_each items (replicate_item (replicate_directory depth self) self current_path))"

text \<open>The \<^verbatim>\<open>sync\<close> request the constructor builds from the two watch sets.\<close>

definition sync_request :: "('f, 'r) source_state \<Rightarrow> request" where
  "sync_request s = Sync (watch_dirs s) (watch_files s)"

text \<open>\<^verbatim>\<open>__init__\<close>, run on the file system object and the transport as they are.\<close>

definition init ::
  "('f, 'r) ReplicatorSource \<Rightarrow> 'f \<Rightarrow> 'r \<Rightarrow> (error + unit) \<times> ('f, 'r) source_state" where
  "init self f r =
     bind (modify (watch_dirs_update (set_add (dir_path self)))) (\<lambda>_.
     bind (fs_call (watchdir (fs self) (dir_path self))) (\<lambda>_.
     bind (replicate_directory (recursion_limit self) self (dir_path self)) (\<lambda>_.
     (\<lambda>s. send self (sync_request s) s))))
       \<lparr>fs_state = f, rpc_state = r, watch_dirs = [], watch_files = []\<rparr>"

text \<open>The \<^verbatim>\<open>try\<close> block of the \<^verbatim>\<open>Removed\<close> case: cancel the watch of a watched
  relative path, whatever \<^verbatim>\<open>unwatchdir\<close> raises.\<close>

definition unwatch_quietly ::
  "('f, 'r) ReplicatorSource \<Rightarrow> string \<Rightarrow> (unit, ('f, 'r) source_state) prog" where
  "unwatch_quietly self p =
     (let base_path = join (dir_path self) p in
      try_pass (fs_call (unwatchdir (fs self) base_path)))"

text \<open>\<^verbatim>\<open>handle_event\<close>\<close>

fun handle_event ::
  "('f, 'r) ReplicatorSource \<Rightarrow> FileSystemEvent \<Rightarrow> (unit, ('f, 'r) source_state) prog" where
  "handle_event self (FileSystemEvent FILE_OR_SUBDIR_ADDED event_path) =
     bind (lift (relpath (cwd self) event_path (dir_path self))) (\<lambda>relative_path.
     bind (bind (fs_query (isdir (fs self) event_path)) (\<lambda>is_dir.
             if is_dir then
               bind (modify (watch_dirs_update (set_add relative_path))) (\<lambda>_.
               bind (fs_call (watchdir (fs self) event_path)) (\<lambda>_.
               bind (replicate_directory (recursion_limit self) self event_path) (\<lambda>_.
                 ret (MkDir relative_path))))
             else
               bind (fs_query (readfile (fs self) event_path)) (\<lambda>content.
                 ret (Write relative_path content)))) (\<lambda>request.
     bind (send self request) (\<lambda>_.
       modify (watch_files_update (set_add relative_path)))))"
| "handle_event self (FileSystemEvent FILE_MODIFIED event_path) =
     bind (lift (relpath (cwd self) event_path (dir_path self))) (\<lambda>relative_path.
     bind (fs_query (readfile (fs self) event_path)) (\<lambda>content.
       send self (Write relative_path content)))"
| "handle_event self (FileSystemEvent FILE_OR_SUBDIR_REMOVED event_path) =
     bind (lift (relpath (cwd self) event_path (dir_path self))) (\<lambda>relative_path.
     (\<lambda>s0.
       (let remove_paths = filter (prefix relative_path) (watch_dirs s0) in
        bind (for_each remove_paths (unwatch_quietly self)) (\<lambda>_.
        bind (modify (watch_dirs_update (\<lambda>ds. fold set_discard remove_paths ds))) (\<lambda>_.
        bind (modify (watch_files_update (set_discard relative_path))) (\<lambda>_.
          send self (Remove relative_path))))) s0))"

section \<open>ReplicatorTarget\<close>

record 'f ReplicatorTarget =
  target_fs :: "'f FileSystem"
  target_dir_path :: string
  target_cwd :: string
  target_recursion_limit :: nat

definition query :: "('f \<Rightarrow> error + 'a) \<Rightarrow> ('a, 'f) prog" where
  "query q = (\<lambda>f. (q f, f))"

definition call :: "('f \<Rightarrow> error + 'f) \<Rightarrow> (unit, 'f) prog" where
  "call c = (\<lambda>f. case c f of Inl e \<Rightarrow> (Inl e, f) | Inr f' \<Rightarrow> (Inr (), f'))"

text \<open>
  \<^verbatim>\<open>_sync_directory\<close>. \<open>sync_item\<close> is the body of its loop, with the recursive
  call as the argument \<open>recurse\<close>; the first argument of \<open>sync_directory\<close> is the
  number of nested calls still allowed.
\<close>

definition sync_item ::
  "(string \<Rightarrow> (unit, 'f) prog) \<Rightarrow> 'f ReplicatorTarget \<Rightarrow> string list \<Rightarrow> string list \<Rightarrow>
     string \<Rightarrow> string \<Rightarrow> (unit, 'f) prog" where
  "sync_item recurse self dirs files current_path item =
     (let item_path = join current_path item in
      bind (lift (relpath (target_cwd self) item_path (target_dir_path self))) (\<lambda>relative_path.
      bind (query (isdir (target_fs self) item_path)) (\<lambda>is_dir.
        if is_dir then
          (if relative_path \<notin> set dirs
           then call (removedir (target_fs self) item_path)
           else recurse item_path)
        else
          (if relative_path \<notin> set files
           then call (removefile (target_fs self) item_path)
           else ret ()))))"

primrec sync_directory ::
  "nat \<Rightarrow> 'f ReplicatorTarget \<Rightarrow> string \<Rightarrow> string list \<Rightarrow> string list \<Rightarrow> (unit, 'f) prog" where
  "sync_directory 0 self current_path dirs files = raise RecursionError"
| "sync_directory (Suc depth) self current_path dirs files =
     bind (query (listdir (target_fs self) current_path)) (\<lambda>items.
       for_each items
         (sync_item (\<lambda>p. sync_directory depth self p dirs files) self dirs files current_path))"

text \<open>The two \<^verbatim>\<open>try\<close> blocks of \<^verbatim>\<open>handle_request\<close>: in the \<^verbatim>\<open>write\<close> case a
  directory at the target path is removed, in the \<^verbatim>\<open>mkdir\<close> case whatever is there
  and is not a directory is removed as a file; the bare \<^verbatim>\<open>except\<close> swallows every
  exception.\<close>

definition remove_conflicting_dir :: "'f ReplicatorTarget \<Rightarrow> string \<Rightarrow> (unit, 'f) prog" where
  "remove_conflicting_dir self target_path =
     try_pass
       (bind (query (isdir (target_fs self) target_path)) (\<lambda>is_dir.
          if is_dir then call (removedir (target_fs self) target_path) else ret ()))"

definition remove_conflicting_file :: "'f ReplicatorTarget \<Rightarrow> string \<Rightarrow> (unit, 'f) prog" where
  "remove_conflicting_file self target_path =
     try_pass
       (bind (query (isdir (target_fs self) target_path)) (\<lambda>is_dir.
          if \<not> is_dir then call (removefile (target_fs self) target_path) else ret ()))"

text \<open>\<^verbatim>\<open>handle_request\<close>\<close>

fun handle_request :: "'f ReplicatorTarget \<Rightarrow> request \<Rightarrow> (unit, 'f) prog" where
  "handle_request self (Write relative_path content) =
     (let target_path = join (target_dir_path self) relative_path;
          target_dir = dirname target_path in
      bind (query (exists (target_fs self) target_dir)) (\<lambda>dir_exists.
      bind (if \<not> dir_exists then call (makedirs (target_fs self) target_dir) else ret ()) (\<lambda>_.
      bind (remove_conflicting_dir self target_path) (\<lambda>_.
      bind (bind (query (exists (target_fs self) target_path)) (\<lambda>present.
              if \<not> present then ret True
              else bind (query (exists (target_fs self) target_path)) (\<lambda>present'.
                     if present'
                     then bind (query (readfile (target_fs self) target_path)) (\<lambda>old.
                            ret (old \<noteq> content))
                     else ret False))) (\<lambda>needs_write.
        if needs_write then call (writefile (target_fs self) target_path content)
        else ret ())))))"
| "handle_request self (MkDir relative_path) =
     (let target_path = join (target_dir_path self) relative_path in
      bind (remove_conflicting_file self target_path) (\<lambda>_.
      bind (query (exists (target_fs self) target_path)) (\<lambda>present.
        if \<not> present then call (makedirs (target_fs self) target_path) else ret ())))"
| "handle_request self (Remove relative_path) =
     (let target_path = join (target_dir_path self) relative_path in
      bind (query (exists (target_fs self) target_path)) (\<lambda>present.
        if present then
          bind (query (isdir (target_fs self) target_path)) (\<lambda>is_dir.
            if is_dir then call (removedir (target_fs self) target_path)
            else call (removefile (target_fs self) target_path))
        else ret ()))"
| "handle_request self (Sync dirs files) =
     sync_directory (target_recursion_limit self) self (target_dir_path self) dirs files"

section \<open>An in-memory file system\<close>

text \<open>
  Modelled from the spec: an implementation of the \<^verbatim>\<open>FileSystem\<close> surface of spec
  section 6, which the sources do not contain. A directory is a list of named
  entries, a file holds its content. A path string names the entry reached by its
  non-empty \<^verbatim>\<open>/\<close>-separated components from the root. The spec gives
  \<^verbatim>\<open>isdir(path) -> bool\<close> and also lets the inspection of a vanished path raise a
  not-found condition: the flag \<open>strict\<close> selects between the two readings.
  Every successful mutation is appended to a journal of physical operations.
\<close>

datatype node = File string | Dir "(string \<times> node) list"

datatype kind = KFile string | KDir

datatype fs_op =
    WriteFile string string
  | RemoveFile string
  | RemoveDir string
  | MakeDirs string

record memfs =
  tree :: node
  watches :: "string list list"
  journal :: "fs_op list"

definition fs_path :: "string \<Rightarrow> string list" where
  "fs_path p = filter (\<lambda>x. x \<noteq> []) (split_sep p)"

fun lookup :: "node \<Rightarrow> string list \<Rightarrow> node option" where
  "lookup n [] = Some n"
| "lookup (File c) (x # xs) = None"
| "lookup (Dir es) (x # xs) = (case map_of es x of None \<Rightarrow> None | Some n \<Rightarrow> lookup n xs)"

fun kind_of :: "node \<Rightarrow> kind" where
  "kind_of (File c) = KFile c"
| "kind_of (Dir es) = KDir"

definition entry :: "node \<Rightarrow> string list \<Rightarrow> kind option" where
  "entry t p = map_option kind_of (lookup t p)"

text \<open>\<open>put p new t\<close> stores \<open>new\<close> at \<open>p\<close>, creating the missing directories on the
  way; \<open>delete p t\<close> removes the entry at \<open>p\<close> with all beneath it.\<close>

fun put :: "string list \<Rightarrow> node \<Rightarrow> node \<Rightarrow> node" where
  "put [] new t = new"
| "put (x # xs) new (File c) = File c"
| "put (x # xs) new (Dir es) =
     Dir (AList.update x (put xs new (case map_of es x of None \<Rightarrow> Dir [] | Some n \<Rightarrow> n)) es)"

fun delete :: "string list \<Rightarrow> node \<Rightarrow> node" where
  "delete [] t = t"
| "delete (x # xs) (File c) = File c"
| "delete [x] (Dir es) = Dir (AList.delete x es)"
| "delete (x # y # ys) (Dir es) =
     (case map_of es x of
        None \<Rightarrow> Dir es
      | Some n \<Rightarrow> Dir (AList.update x (delete (y # ys) n) es))"

text \<open>Whether a file stands at some prefix of the path.\<close>

fun file_on_path :: "node \<Rightarrow> string list \<Rightarrow> bool" where
  "file_on_path (File c) p = True"
| "file_on_path (Dir es) [] = False"
| "file_on_path (Dir es) (x # xs) =
     (case map_of es x of None \<Rightarrow> False | Some n \<Rightarrow> file_on_path n xs)"

definition mem_listdir :: "string \<Rightarrow> memfs \<Rightarrow> error + string list" where
  "mem_listdir p f =
     (case lookup (tree f) (fs_path p) of
        None \<Rightarrow> Inl FileNotFound
      | Some (File c) \<Rightarrow> Inl NotADirectory
      | Some (Dir es) \<Rightarrow> Inr (remdups (map fst es)))"

definition mem_isdir :: "bool \<Rightarrow> string \<Rightarrow> memfs \<Rightarrow> error + bool" where
  "mem_isdir strict p f =
     (case lookup (tree f) (fs_path p) of
        None \<Rightarrow> (if strict then Inl FileNotFound else Inr False)
      | Some (File c) \<Rightarrow> Inr False
      | Some (Dir es) \<Rightarrow> Inr True)"

definition mem_exists :: "string \<Rightarrow> memfs \<Rightarrow> error + bool" where
  "mem_exists p f = Inr (lookup (tree f) (fs_path p) \<noteq> None)"

definition mem_readfile :: "string \<Rightarrow> memfs \<Rightarrow> error + string" where
  "mem_readfile p f =
     (case lookup (tree f) (fs_path p) of
        None \<Rightarrow> Inl FileNotFound
      | Some (File c) \<Rightarrow> Inr c
      | Some (Dir es) \<Rightarrow> Inl IsADirectory)"

definition mem_writefile :: "string \<Rightarrow> string \<Rightarrow> memfs \<Rightarrow> error + memfs" where
  "mem_writefile p c f =
     (let q = fs_path p in
      if q = [] then Inl IsADirectory
      else case lookup (tree f) (butlast q) of
        None \<Rightarrow> Inl FileNotFound
      | Some (File c') \<Rightarrow> Inl NotADirectory
      | Some (Dir es) \<Rightarrow>
          (case lookup (tree f) q of
             Some (Dir es') \<Rightarrow> Inl IsADirectory
           | _ \<Rightarrow> Inr (f\<lparr>tree := put q (File c) (tree f),
                         journal := journal f @ [WriteFile p c]\<rparr>)))"

definition mem_removefile :: "string \<Rightarrow> memfs \<Rightarrow> error + memfs" where
  "mem_removefile p f =
     (let q = fs_path p in
      case lookup (tree f) q of
        None \<Rightarrow> Inl FileNotFound
      | Some (Dir es) \<Rightarrow> Inl IsADirectory
      | Some (File c) \<Rightarrow>
          (if q = [] then Inl PermissionDenied
           else Inr (f\<lparr>tree := delete q (tree f), journal := journal f @ [RemoveFile p]\<rparr>)))"

definition mem_removedir :: "string \<Rightarrow> memfs \<Rightarrow> error + memfs" where
  "mem_removedir p f =
     (let q = fs_path p in
      case lookup (tree f) q of
        None \<Rightarrow> Inl FileNotFound
      | Some (File c) \<Rightarrow> Inl NotADirectory
      | Some (Dir es) \<Rightarrow>
          (if q = [] then Inl PermissionDenied
           else Inr (f\<lparr>tree := delete q (tree f), journal := journal f @ [RemoveDir p]\<rparr>)))"

definition mem_makedirs :: "string \<Rightarrow> memfs \<Rightarrow> error + memfs" where
  "mem_makedirs p f =
     (let q = fs_path p in
      if file_on_path (tree f) q then Inl NotADirectory
      else if lookup (tree f) q \<noteq> None then Inl FileExists
      else Inr (f\<lparr>tree := put q (Dir []) (tree f), journal := journal f @ [MakeDirs p]\<rparr>))"

definition mem_watchdir :: "string \<Rightarrow> memfs \<Rightarrow> error + memfs" where
  "mem_watchdir p f =
     (case lookup (tree f) (fs_path p) of
        None \<Rightarrow> Inl FileNotFound
      | Some (File c) \<Rightarrow> Inl NotADirectory
      | Some (Dir es) \<Rightarrow> Inr (f\<lparr>watches := set_add (fs_path p) (watches f)\<rparr>))"

definition mem_unwatchdir :: "string \<Rightarrow> memfs \<Rightarrow> error + memfs" where
  "mem_unwatchdir p f =
     (if fs_path p \<in> set (watches f)
      then Inr (f\<lparr>watches := set_discard (fs_path p) (watches f)\<rparr>)
      else Inl FileNotFound)"

definition mem :: "bool \<Rightarrow> memfs FileSystem" where
  "mem strict =
     \<lparr>listdir = mem_listdir, isdir = mem_isdir strict, exists = mem_exists,
      readfile = mem_readfile, writefile = mem_writefile, removefile = mem_removefile,
      removedir = mem_removedir, makedirs = mem_makedirs, watchdir = mem_watchdir,
      unwatchdir = mem_unwatchdir\<rparr>"

text \<open>A transport that records the requests in the order they are sent.\<close>

definition record_request :: "request \<Rightarrow> request list \<Rightarrow> error + request list" where
  "record_request request sent = Inr (sent @ [request])"

section \<open>A running example\<close>

text \<open>A source root \<^verbatim>\<open>/s\<close> holding the directory \<^verbatim>\<open>d\<close> with the file
  \<^verbatim>\<open>d/f\<close>, and the sibling directories \<^verbatim>\<open>a\<close> and \<^verbatim>\<open>ab\<close>.\<close>

definition example_fs :: memfs where
  "example_fs =
     \<lparr>tree = Dir [(''s'', Dir [(''d'', Dir [(''f'', File ''hello'')]),
                               (''a'', Dir []), (''ab'', Dir [])])],
      watches = [], journal = []\<rparr>"

definition example_source :: "(memfs, request list) ReplicatorSource" where
  "example_source =
     \<lparr>fs = mem True, dir_path = ''/s'', rpc_handle = record_request, cwd = ''/'',
      recursion_limit = 100\<rparr>"

text \<open>The source after its constructor has run on the example.\<close>

definition example_started :: "(memfs, request list) source_state" where
  "example_started = snd (init example_source example_fs [])"

text \<open>A target rooted at \<^verbatim>\<open>/t\<close>, and the number of \<^verbatim>\<open>writefile\<close> calls that a
  file system has carried out.\<close>

definition example_target :: "memfs ReplicatorTarget" where
  "example_target =
     \<lparr>target_fs = mem True, target_dir_path = ''/t'', target_cwd = ''/'',
      target_recursion_limit = 100\<rparr>"

text \<open>A target tree that holds, under \<^verbatim>\<open>/t\<close>, the directory \<^verbatim>\<open>a\<close> with the file
  \<^verbatim>\<open>a/extra.txt\<close>, the file \<^verbatim>\<open>a/keep.txt\<close>, and the directory \<^verbatim>\<open>x\<close>.\<close>

definition example_target_fs :: memfs where
  "example_target_fs =
     \<lparr>tree = Dir [(''t'', Dir [(''a'', Dir [(''extra.txt'', File ''junk''),
                                             (''keep.txt'', File ''kept'')]),
                               (''x'', Dir [(''y'', Dir [])])])],
      watches = [], journal = []\<rparr>"

section \<open>Well-formed paths and trees\<close>

text \<open>
  A name of a directory entry is not empty, holds no separator and is neither
  \<^verbatim>\<open>.\<close> nor \<^verbatim>\<open>..\<close>. \<open>abs_path_of\<close> writes a list of names as an absolute path.
  \<open>wf_node\<close> says that every name in a tree is one, and \<open>height\<close> bounds the
  number of nested calls a walk over it needs.
\<close>

definition valid_name :: "string \<Rightarrow> bool" where
  "valid_name n \<longleftrightarrow> n \<noteq> [] \<and> CHR ''/'' \<notin> set n \<and> n \<noteq> ''.'' \<and> n \<noteq> ''..''"

definition abs_path_of :: "string list \<Rightarrow> string" where
  "abs_path_of names = CHR ''/'' # sep_join names"

fun wf_node :: "node \<Rightarrow> bool" where
  "wf_node (File c) = True"
| "wf_node (Dir es) = (\<forall>(n, c) \<in> set es. valid_name n \<and> wf_node c)"

fun height :: "node \<Rightarrow> nat" where
  "height (File c) = 0"
| "height (Dir es) = Suc (fold max (map (\<lambda>(n, c). height c) es) 0)"

text \<open>
  What a \<^verbatim>\<open>sync\<close> request with the sets \<open>dirs\<close> and \<open>files\<close> covers in the tree \<open>t\<close>
  under the root \<open>root\<close>: an entry is matched when its relative path is in the set
  of its kind, and covered when it and each of its ancestors below the root are
  matched.
\<close>

definition matched :: "node \<Rightarrow> string list \<Rightarrow> string list \<Rightarrow> string list \<Rightarrow> string list \<Rightarrow> bool" where
  "matched t root dirs files r =
     (case entry t (root @ r) of
        None \<Rightarrow> False
      | Some KDir \<Rightarrow> sep_join r \<in> set dirs
      | Some (KFile c) \<Rightarrow> sep_join r \<in> set files)"

fun covered_from ::
  "node \<Rightarrow> string list \<Rightarrow> string list \<Rightarrow> string list \<Rightarrow> string list \<Rightarrow> string list \<Rightarrow> bool" where
  "covered_from t root dirs files d [] = True"
| "covered_from t root dirs files d (x # q) =
     (matched t root dirs files (d @ [x]) \<and> covered_from t root dirs files (d @ [x]) q)"

definition covered :: "node \<Rightarrow> string list \<Rightarrow> string list \<Rightarrow> string list \<Rightarrow> string list \<Rightarrow> bool" where
  "covered t root dirs files r = covered_from t root dirs files [] r"

text \<open>The entries of \<open>t\<close> once the entries named \<open>X\<close> of the directory \<open>d\<close> below
  the root have been reconciled: what is below one of them and not covered is gone.\<close>

definition pruned ::
  "node \<Rightarrow> string list \<Rightarrow> string list \<Rightarrow> string list \<Rightarrow> string list \<Rightarrow> string set \<Rightarrow>
     string list \<Rightarrow> kind option" where
  "pruned t root dirs files d X =
     (\<lambda>p. if \<exists>x \<in> X. \<exists>q. p = root @ d @ x # q \<and> \<not> covered_from t root dirs files d (x # q)
          then None else entry t p)"





text \<open>
  A source and a target in one process: the transport hands each request to
  \<^verbatim>\<open>handle_request\<close> of the target, and the far side of the transport is the file
  system of the target. A request that raises is reported to the source as its
  error.
\<close>

definition deliver :: "'f ReplicatorTarget \<Rightarrow> request \<Rightarrow> 'f \<Rightarrow> error + 'f" where
  "deliver target request g =
     (case handle_request target request g of
        (Inl e, g') \<Rightarrow> Inl e
      | (Inr u, g') \<Rightarrow> Inr g')"

text \<open>The example source, connected to the example target.\<close>

definition example_pair :: "(memfs, memfs) ReplicatorSource" where
  "example_pair =
     \<lparr>fs = mem True, dir_path = ''/s'', rpc_handle = deliver example_target, cwd = ''/'',
      recursion_limit = 100\<rparr>"

text \<open>The relative paths of the directories and of the files that a tree holds
  below a root.\<close>

definition dirs_below :: "node \<Rightarrow> string list \<Rightarrow> string set" where
  "dirs_below t root = {sep_join r | r. r \<noteq> [] \<and> entry t (root @ r) = Some KDir}"

definition files_below :: "node \<Rightarrow> string list \<Rightarrow> string set" where
  "files_below t root = {sep_join r | r. r \<noteq> [] \<and> (\<exists>c. entry t (root @ r) = Some (KFile c))}"

text \<open>
  During the walk of a source tree \<open>T\<close> with root \<open>ss\<close> that feeds a target tree \<open>G\<close>
  with root \<open>ts\<close>: every path in the watch sets, the root apart, names an entry of
  the source that the target holds with the same kind and content.
\<close>

definition established ::
  "node \<Rightarrow> string list \<Rightarrow> node \<Rightarrow> string list \<Rightarrow> string \<Rightarrow> string list \<Rightarrow> string list \<Rightarrow> bool" where
  "established T ss G ts root dirs files \<longleftrightarrow>
     (\<forall>p \<in> set dirs. p \<noteq> root \<longrightarrow>
        (\<exists>r. r \<noteq> [] \<and> p = sep_join r \<and> entry T (ss @ r) = Some KDir \<and>
             entry G (ts @ r) = Some KDir)) \<and>
     (\<forall>p \<in> set files.
        (\<exists>r c. r \<noteq> [] \<and> p = sep_join r \<and> entry T (ss @ r) = Some (KFile c) \<and>
               entry G (ts @ r) = Some (KFile c)))"

text \<open>
  The state of a source that feeds a target, at any moment of the walk: the source
  tree is \<open>T\<close>, the target root is a directory, the watched paths are established,
  and every entry below the target root has valid names and a depth below \<open>L\<close>.
  \<open>walked\<close> says that each entry of the source below the directory \<open>d\<close> is in the
  watch set of its kind.
\<close>

definition mirroring ::
  "node \<Rightarrow> string list \<Rightarrow> string list \<Rightarrow> string \<Rightarrow> nat \<Rightarrow> (memfs, memfs) source_state \<Rightarrow> bool" where
  "mirroring T ss ts root L s \<longleftrightarrow>
     tree (fs_state s) = T \<and>
     entry (tree (rpc_state s)) ts = Some KDir \<and>
     established T ss (tree (rpc_state s)) ts root (watch_dirs s) (watch_files s) \<and>
     (\<forall>q. entry (tree (rpc_state s)) (ts @ q) \<noteq> None \<longrightarrow> list_all valid_name q \<and> length q < L)"


text \<open>Two faulty file systems: one on which every removal and every unwatch is
  denied, and one on which every operation fails with the given error.\<close>

definition denying :: "memfs FileSystem" where
  "denying =
     (mem True)\<lparr>removefile := \<lambda>p f. Inl PermissionDenied,
                 removedir := \<lambda>p f. Inl PermissionDenied,
                 unwatchdir := \<lambda>p f. Inl PermissionDenied\<rparr>"

definition broken :: "error \<Rightarrow> memfs FileSystem" where
  "broken e =
     \<lparr>listdir = \<lambda>p f. Inl e, isdir = \<lambda>p f. Inl e, exists = \<lambda>p f. Inl e,
      readfile = \<lambda>p f. Inl e, writefile = \<lambda>p c f. Inl e, removefile = \<lambda>p f. Inl e,
      removedir = \<lambda>p f. Inl e, makedirs = \<lambda>p f. Inl e, watchdir = \<lambda>p f. Inl e,
      unwatchdir = \<lambda>p f. Inl e\<rparr>"

fun is_write :: "fs_op \<Rightarrow> bool" where
  "is_write (WriteFile p c) = True"
| "is_write (RemoveFile p) = False"
| "is_write (RemoveDir p) = False"
| "is_write (MakeDirs p) = False"

definition physical_writes :: "memfs \<Rightarrow> nat" where
  "physical_writes f = length (filter is_write (journal f))"

section \<open>Running programs\<close>

lemma bind_apply:
  "bind m f s = (case m s of (Inl e, s') \<Rightarrow> (Inl e, s') | (Inr x, s') \<Rightarrow> f x s')"
  by (simp add: bind_def)

lemma ret_apply: "ret x s = (Inr x, s)"
  by (simp add: ret_def)

lemma raise_apply: "raise e s = (Inl e, s)"
  by (simp add: raise_def)

lemma lift_apply: "lift r s = (r, s)"
  by (simp add: lift_def)

lemma modify_apply: "modify f s = (Inr (), f s)"
  by (simp add: modify_def)

lemma try_pass_apply: "try_pass m s = (Inr (), snd (m s))"
  by (simp add: try_pass_def split: prod.splits sum.splits)

lemma fs_query_apply: "fs_query q s = (q (fs_state s), s)"
  by (simp add: fs_query_def)

lemma fs_call_apply:
  "fs_call c s = (case c (fs_state s) of
                    Inl e \<Rightarrow> (Inl e, s)
                  | Inr f \<Rightarrow> (Inr (), s\<lparr>fs_state := f\<rparr>))"
  by (simp add: fs_call_def)

lemma send_apply:
  "send self request s = (case rpc_handle self request (rpc_state s) of
                            Inl e \<Rightarrow> (Inl e, s)
                          | Inr r \<Rightarrow> (Inr (), s\<lparr>rpc_state := r\<rparr>))"
  by (simp add: send_def)

lemma query_apply: "query q f = (q f, f)"
  by (simp add: query_def)

lemma call_apply: "call c f = (case c f of Inl e \<Rightarrow> (Inl e, f) | Inr f' \<Rightarrow> (Inr (), f'))"
  by (simp add: call_def)

lemmas prog_simps = bind_apply ret_apply raise_apply lift_apply modify_apply try_pass_apply
  fs_query_apply fs_call_apply send_apply query_apply call_apply

text \<open>An invariant of the loop body is an invariant of the loop, whether the loop
  ends normally or by an exception.\<close>

lemma for_each_invariant:
  assumes step: "\<And>x s r s'. x \<in> set xs \<Longrightarrow> P s \<Longrightarrow> body x s = (r, s') \<Longrightarrow> P s'"
    and init: "P s"
    and run: "for_each xs body s = (r, s')"
  shows "P s'"
  using assms
proof (induction xs arbitrary: s)
  case Nil
  then show ?case by (simp add: ret_apply)
next
  case (Cons x xs)
  obtain r1 s1 where b: "body x s = (r1, s1)" by (cases "body x s")
  have p1: "P s1" using Cons.prems(1)[OF _ Cons.prems(2) b] by simp
  show ?case
  proof (cases r1)
    case (Inl e)
    with Cons.prems(3) b have "s' = s1" by (simp add: bind_apply)
    with p1 show ?thesis by simp
  next
    case (Inr u)
    with Cons.prems(3) b have "for_each xs body s1 = (r, s')" by (simp add: bind_apply)
    then show ?thesis using Cons.IH[of s1] Cons.prems(1) p1 by auto
  qed
qed

lemma relpath_raises: "relpath wd p start = Inl e \<longleftrightarrow> p = [] \<and> e = ValueError"
  by (auto simp: relpath_def Let_def split: list.splits)

section \<open>The watch sets only grow during a walk\<close>

lemma replicate_item_grows:
  assumes rec: "\<And>q t r t'. recurse q t = (r, t') \<Longrightarrow>
                  set (watch_dirs t) \<subseteq> set (watch_dirs t') \<and> set (watch_files t) \<subseteq> set (watch_files t')"
    and run: "replicate_item recurse self current_path item s = (r, s')"
  shows "set (watch_dirs s) \<subseteq> set (watch_dirs s') \<and> set (watch_files s) \<subseteq> set (watch_files s')"
  using run
  by (auto simp: replicate_item_def prog_simps Let_def set_add_def
           split: sum.splits if_splits dest!: rec)

lemma replicate_directory_grows:
  "replicate_directory depth self current_path s = (r, s') \<Longrightarrow>
     set (watch_dirs s) \<subseteq> set (watch_dirs s') \<and> set (watch_files s) \<subseteq> set (watch_files s')"
proof (induction depth arbitrary: current_path s r s')
  case 0
  then show ?case by (simp add: raise_apply)
next
  case (Suc depth)
  show ?case
  proof (cases "listdir (fs self) current_path (fs_state s)")
    case (Inl e)
    with Suc.prems show ?thesis by (simp add: prog_simps)
  next
    case (Inr items)
    with Suc.prems have run:
      "for_each items (replicate_item (replicate_directory depth self) self current_path) s = (r, s')"
      by (simp add: prog_simps)
    let ?P = "\<lambda>t. set (watch_dirs s) \<subseteq> set (watch_dirs t) \<and> set (watch_files s) \<subseteq> set (watch_files t)"
    have "?P s'"
    proof (rule for_each_invariant[where P = ?P, OF _ _ run])
      show "?P s" by simp
    next
      fix x t r1 t'
      assume "?P t"
        and "replicate_item (replicate_directory depth self) self current_path x t = (r1, t')"
      with replicate_item_grows[of "replicate_directory depth self" self current_path x t r1 t']
      show "?P t'" using Suc.IH by blast
    qed
    then show ?thesis .
  qed
qed

section \<open>Claims about the source\<close>

text \<open>
  C3 (the code departs from the claim). The claim: for a newly added directory that
  contains a file, \<^verbatim>\<open>MkDir\<close> of the directory is sent strictly before any \<^verbatim>\<open>Write\<close>
  beneath it, the handler of the added directory sending \<^verbatim>\<open>MkDir\<close> before the
  walker's requests. The handler builds the \<^verbatim>\<open>mkdir\<close> request, runs the walker, and
  only then sends it: for the added directory \<^verbatim>\<open>/s/d\<close> holding \<^verbatim>\<open>f\<close> the
  transport sees \<^verbatim>\<open>Write d/f\<close> first and \<^verbatim>\<open>MkDir d\<close> last.
\<close>

theorem added_directory_sends_mkdir_last:
  "handle_event example_source (FileSystemEvent FILE_OR_SUBDIR_ADDED ''/s/d'')
     \<lparr>fs_state = example_fs, rpc_state = [], watch_dirs = [''/s''], watch_files = []\<rparr>
   = (Inr (),
      \<lparr>fs_state = example_fs\<lparr>watches := [[''s'', ''d'']]\<rparr>,
       rpc_state = [Write ''d/f'' ''hello'', MkDir ''d''],
       watch_dirs = [''/s'', ''d''], watch_files = [''d/f'', ''d'']\<rparr>)"
  by code_simp

text \<open>
  C2 (the code departs from the claim). The claim: a \<^verbatim>\<open>Removed\<close> event for the
  relative path \<open>p\<close> removes from the watched directories exactly those of which
  \<open>p\<close> is a prefix by path segments, so that \<^verbatim>\<open>ab\<close> stays when \<^verbatim>\<open>a\<close> is removed.
  The handler tests \<^verbatim>\<open>path.startswith(relative_path)\<close> on the strings: with
  \<^verbatim>\<open>d\<close>, \<^verbatim>\<open>a\<close> and \<^verbatim>\<open>ab\<close> watched, the removal of \<^verbatim>\<open>/s/a\<close> also drops
  \<^verbatim>\<open>ab\<close> from the set and cancels its watch.
\<close>

theorem removed_drops_sibling_with_string_prefix:
  "watch_dirs example_started = [''/s'', ''d'', ''a'', ''ab''] \<and>
   watches (fs_state example_started) = [[''s''], [''s'', ''d''], [''s'', ''a''], [''s'', ''ab'']] \<and>
   handle_event example_source (FileSystemEvent FILE_OR_SUBDIR_REMOVED ''/s/a'') example_started
   = (Inr (),
      example_started
        \<lparr>fs_state := (fs_state example_started)\<lparr>watches := [[''s''], [''s'', ''d'']]\<rparr>,
         rpc_state := rpc_state example_started @ [Remove ''a''],
         watch_dirs := [''/s'', ''d'']\<rparr>)"
  by code_simp

text \<open>
  C10. When \<^verbatim>\<open>handle_event\<close> handles an \<^verbatim>\<open>Added\<close> event whose path is a directory
  and returns, the relative path of the directory is in the watched directories and
  also in the watched files, so the \<^verbatim>\<open>sync\<close> request built from the watch sets
  afterwards lists it in both.
\<close>

theorem added_directory_is_in_dirs_and_files:
  assumes "isdir (fs self) event_path (fs_state s) = Inr True"
    and "handle_event self (FileSystemEvent FILE_OR_SUBDIR_ADDED event_path) s = (Inr (), s')"
  shows "\<exists>relative_path dirs files.
           relpath (cwd self) event_path (dir_path self) = Inr relative_path \<and>
           relative_path \<in> set (watch_dirs s') \<and> relative_path \<in> set (watch_files s') \<and>
           sync_request s' = Sync dirs files \<and>
           relative_path \<in> set dirs \<and> relative_path \<in> set files"
proof -
  obtain rel where rel: "relpath (cwd self) event_path (dir_path self) = Inr rel"
    using assms(2) by (cases "relpath (cwd self) event_path (dir_path self)") (auto simp: prog_simps)
  obtain f1 where f1: "watchdir (fs self) event_path (fs_state s) = Inr f1"
    using assms rel by (cases "watchdir (fs self) event_path (fs_state s)") (auto simp: prog_simps)
  let ?s2 = "watch_dirs_update (set_add rel) s\<lparr>fs_state := f1\<rparr>"
  obtain r3 s3 where walk: "replicate_directory (recursion_limit self) self event_path ?s2 = (r3, s3)"
    by (cases "replicate_directory (recursion_limit self) self event_path ?s2")
  have in3: "rel \<in> set (watch_dirs s3)"
    using replicate_directory_grows[OF walk] by (auto simp: set_add_def)
  from assms rel f1 walk
  have "rel \<in> set (watch_files s') \<and> watch_dirs s' = watch_dirs s3"
    by (auto simp: prog_simps set_add_def split: sum.splits)
  with in3 have "rel \<in> set (watch_dirs s')" "rel \<in> set (watch_files s')"
    by simp_all
  then show ?thesis using rel by (auto simp: sync_request_def)
qed

theorem added_directory_is_in_dirs_and_files_witness:
  "\<exists>relative_path dirs files.
     relpath (cwd example_source) ''/s/d'' (dir_path example_source) = Inr relative_path \<and>
     relative_path \<in> set (watch_dirs (snd (handle_event example_source
        (FileSystemEvent FILE_OR_SUBDIR_ADDED ''/s/d'') example_started))) \<and>
     relative_path \<in> set (watch_files (snd (handle_event example_source
        (FileSystemEvent FILE_OR_SUBDIR_ADDED ''/s/d'') example_started))) \<and>
     sync_request (snd (handle_event example_source
        (FileSystemEvent FILE_OR_SUBDIR_ADDED ''/s/d'') example_started)) = Sync dirs files \<and>
     relative_path \<in> set dirs \<and> relative_path \<in> set files"
proof -
  have h1: "isdir (fs example_source) ''/s/d'' (fs_state example_started) = Inr True"
    by code_simp
  have h2: "handle_event example_source (FileSystemEvent FILE_OR_SUBDIR_ADDED ''/s/d'') example_started
            = (Inr (), snd (handle_event example_source
                 (FileSystemEvent FILE_OR_SUBDIR_ADDED ''/s/d'') example_started))"
    by code_simp
  show ?thesis by (rule added_directory_is_in_dirs_and_files[OF h1 h2])
qed

text \<open>
  C5 (amended). The claim: an \<^verbatim>\<open>Added\<close> event whose path has vanished, so that
  inspecting it raises, makes \<^verbatim>\<open>handle_event\<close> send nothing and return normally.
  The handler has no \<^verbatim>\<open>try\<close> around the inspection. What holds: when \<^verbatim>\<open>isdir\<close>
  raises, or answers no and \<^verbatim>\<open>readfile\<close> raises, \<^verbatim>\<open>handle_event\<close> sends nothing,
  changes nothing, and the exception propagates out of it (a \<^verbatim>\<open>ValueError\<close> of
  \<^verbatim>\<open>relpath\<close> instead when the event path is empty).
\<close>

theorem added_vanished_path_propagates:
  assumes "isdir (fs self) event_path (fs_state s) = Inl e \<or>
           (isdir (fs self) event_path (fs_state s) = Inr False \<and>
            readfile (fs self) event_path (fs_state s) = Inl e)"
  shows "handle_event self (FileSystemEvent FILE_OR_SUBDIR_ADDED event_path) s
         = (Inl (if event_path = [] then ValueError else e), s)"
proof (cases "relpath (cwd self) event_path (dir_path self)")
  case (Inl e')
  then show ?thesis using relpath_raises[of "cwd self" event_path "dir_path self" e']
    by (simp add: prog_simps)
next
  case (Inr rel)
  then have "event_path \<noteq> []" by (auto simp: relpath_def)
  with Inr assms show ?thesis by (auto simp: prog_simps)
qed

theorem added_vanished_path_propagates_witness:
  "handle_event example_source (FileSystemEvent FILE_OR_SUBDIR_ADDED ''/s/gone'') example_started
   = (Inl FileNotFound, example_started)"
proof -
  have "isdir (fs example_source) ''/s/gone'' (fs_state example_started) = Inl FileNotFound"
    by code_simp
  from added_vanished_path_propagates[of example_source "''/s/gone''" example_started FileNotFound,
      OF disjI1, OF this]
  show ?thesis by simp
qed

theorem added_vanished_path_counterexample:
  "isdir (fs example_source) ''/s/gone'' (fs_state example_started) = Inl FileNotFound \<and>
   fst (handle_event example_source (FileSystemEvent FILE_OR_SUBDIR_ADDED ''/s/gone'')
          example_started) = Inl FileNotFound"
  by code_simp

section \<open>Path strings and the tree of the in-memory file system\<close>

lemma split_sep_nonempty: "split_sep s \<noteq> []"
  by (induction s) (auto split: list.splits)

lemma split_sep_append_sep: "split_sep (a @ CHR ''/'' # b) = split_sep a @ split_sep b"
  by (induction a) (auto split: list.splits simp: split_sep_nonempty)

lemma split_sep_plain: "CHR ''/'' \<notin> set a \<Longrightarrow> split_sep a = [a]"
  by (induction a) auto

lemma fs_path_append_sep: "fs_path (a @ CHR ''/'' # b) = fs_path a @ fs_path b"
  by (simp add: fs_path_def split_sep_append_sep)

lemma fs_path_plain: "CHR ''/'' \<notin> set a \<Longrightarrow> fs_path a = (if a = [] then [] else [a])"
  by (simp add: fs_path_def split_sep_plain)

lemma fs_path_Nil: "fs_path [] = []" by (simp add: fs_path_def)

lemma fs_path_snoc_sep: "fs_path (a @ ''/'') = fs_path a"
  using fs_path_append_sep[of a "[]"] by (simp add: fs_path_Nil)

lemma fs_path_strip: "fs_path (rev (dropWhile (\<lambda>c. c = CHR ''/'') (rev a))) = fs_path a"
proof (induction a rule: rev_induct)
  case Nil
  then show ?case by simp
next
  case (snoc x xs)
  then show ?case using fs_path_snoc_sep[of xs] by auto
qed

lemma head_tail: "rev (dropWhile P (rev p)) @ rev (takeWhile P (rev p)) = p"
  by (simp flip: rev_append)

lemma fs_path_dirname:
  "fs_path p = fs_path (dirname p) @ (let t = rev (takeWhile (\<lambda>c. c \<noteq> CHR ''/'') (rev p)) in if t = [] then [] else [t])"
proof -
  define h where "h = rev (dropWhile (\<lambda>c. c \<noteq> CHR ''/'') (rev p))"
  define t where "t = rev (takeWhile (\<lambda>c. c \<noteq> CHR ''/'') (rev p))"
  have p: "h @ t = p" unfolding h_def t_def by (rule head_tail)
  have t: "CHR ''/'' \<notin> set t" unfolding t_def by (auto dest: set_takeWhileD)
  have d: "fs_path (dirname p) = fs_path h"
    unfolding h_def by (simp add: dirname_def Let_def fs_path_strip del: rev_rev_ident)
  have goal: "fs_path (h @ t) = fs_path h @ (if t = [] then [] else [t])"
  proof (cases "h = []")
    case True
    then show ?thesis using fs_path_plain[OF t] by (simp add: fs_path_Nil)
  next
    case False
    then have "dropWhile (\<lambda>c. c \<noteq> CHR ''/'') (rev p) \<noteq> []" unfolding h_def by simp
    then have "hd (dropWhile (\<lambda>c. c \<noteq> CHR ''/'') (rev p)) = CHR ''/''"
      using hd_dropWhile[of "\<lambda>c. c \<noteq> CHR ''/''" "rev p"] by blast
    then have "last h = CHR ''/''" unfolding h_def
      by (simp add: last_rev)
    then obtain h' where h': "h = h' @ ''/''"
      using False by (metis append_butlast_last_id)
    have "fs_path (h @ t) = fs_path (h' @ CHR ''/'' # t)" using h' by simp
    also have "\<dots> = fs_path h' @ fs_path t" by (rule fs_path_append_sep)
    also have "fs_path h' = fs_path h" using h' fs_path_snoc_sep[of h'] by simp
    finally show ?thesis using fs_path_plain[OF t] by simp
  qed
  have g2: "fs_path p = fs_path (dirname p) @ (if t = [] then [] else [t])"
    using goal by (simp only: p d)
  show ?thesis unfolding Let_def using g2 by (simp only: t_def)
qed

lemma fs_path_dirname_prefix: "prefix (fs_path (dirname p)) (fs_path p)"
  using fs_path_dirname[of p] by (metis prefixI)

lemma lookup_append:
  "lookup t (p @ q) = (case lookup t p of None \<Rightarrow> None | Some n \<Rightarrow> lookup n q)"
proof (induction p arbitrary: t)
  case Nil
  then show ?case by simp
next
  case (Cons x xs)
  then show ?case by (cases t) (auto split: option.splits)
qed

lemma entry_Nil: "entry t [] = Some (kind_of t)"
  by (simp add: entry_def)

lemma entry_File_Cons: "entry (File c) (x # xs) = None"
  by (simp add: entry_def)

lemma entry_Dir_Cons:
  "entry (Dir es) (x # xs) = (case map_of es x of None \<Rightarrow> None | Some n \<Rightarrow> entry n xs)"
  by (simp add: entry_def split: option.splits)

lemma entry_Dir_Nil: "q \<noteq> [] \<Longrightarrow> entry (Dir []) q = None"
  by (cases q) (simp_all add: entry_Dir_Cons)

lemma entry_delete:
  "entry (delete p t) q = (if p \<noteq> [] \<and> prefix p q then None else entry t q)"
proof (induction p t arbitrary: q rule: delete.induct)
  case (1 t)
  then show ?case by simp
next
  case (2 x xs c)
  then show ?case by (cases q) (auto simp: entry_File_Cons entry_Nil)
next
  case (3 x es)
  then show ?case
    by (cases q) (auto simp: entry_Dir_Cons entry_Nil delete_conv')
next
  case (4 x y ys es)
  show ?case
  proof (cases "map_of es x")
    case None
    then show ?thesis by (cases q) (auto simp: entry_Dir_Cons entry_Nil)
  next
    case (Some n)
    then show ?thesis using 4[OF Some]
      by (cases q) (auto simp: entry_Dir_Cons entry_Nil update_conv')
  qed
qed

lemma file_on_path_Dir_Nil: "\<not> file_on_path (Dir []) p"
  by (cases p) auto

lemma entry_put:
  assumes "p \<noteq> []" and "\<not> file_on_path t (butlast p)"
  shows "entry (put p new t) q =
           (if prefix p q then entry new (drop (length p) q)
            else if strict_prefix q p then Some KDir
            else entry t q)"
  using assms
proof (induction p arbitrary: t q)
  case Nil
  then show ?case by simp
next
  case (Cons x xs)
  from Cons.prems(2) obtain es where t: "t = Dir es" by (cases t) auto
  define c where "c = (case map_of es x of None \<Rightarrow> Dir [] | Some n \<Rightarrow> n)"
  have put: "put (x # xs) new t = Dir (AList.update x (put xs new c) es)"
    by (simp add: t c_def)
  show ?case
  proof (cases xs)
    case Nil
    then show ?thesis
      by (cases q) (auto simp: t entry_Dir_Cons entry_Nil update_conv')
  next
    case (Cons x' xs')
    have nf: "\<not> file_on_path c (butlast xs)"
      using Cons.prems(2) Cons
      by (auto simp: t c_def file_on_path_Dir_Nil split: option.splits)
    have ih: "\<And>q'. entry (put xs new c) q' =
           (if prefix xs q' then entry new (drop (length xs) q')
            else if strict_prefix q' xs then Some KDir
            else entry c q')"
      using Cons.IH[OF _ nf] Cons by simp
    show ?thesis
    proof (cases q)
      case Nil
      then show ?thesis by (simp add: put entry_Nil)
    next
      case (Cons y ys)
      show ?thesis
      proof (cases "y = x")
        case True
        have e: "entry (put (x # xs) new t) (x # ys) = entry (put xs new c) ys"
          by (simp add: put entry_Dir_Cons update_conv')
        have c: "entry c ys = entry t (x # ys) \<or> (ys = [] \<and> map_of es x = None)"
          by (cases ys) (auto simp: t c_def entry_Dir_Cons entry_Nil split: option.splits)
        have xs: "xs \<noteq> []" using \<open>xs = x' # xs'\<close> by simp
        have "entry (put xs new c) ys =
           (if prefix (x # xs) (x # ys) then entry new (drop (length (x # xs)) (x # ys))
            else if strict_prefix (x # ys) (x # xs) then Some KDir
            else entry t (x # ys))"
          using c xs by (auto simp: ih[of ys] strict_prefix_def)
        then show ?thesis unfolding Cons True e .
      next
        case False
        then show ?thesis using Cons
          by (auto simp: put t entry_Dir_Cons update_conv')
      qed
    qed
  qed
qed

section \<open>The operations of the in-memory file system, by their effect on the entries\<close>

lemma entry_None: "entry t p = None \<longleftrightarrow> lookup t p = None"
  by (simp add: entry_def)

lemma entry_KDir: "entry t p = Some KDir \<longleftrightarrow> (\<exists>es. lookup t p = Some (Dir es))"
proof (cases "lookup t p")
  case None
  then show ?thesis by (simp add: entry_def)
next
  case (Some n)
  then show ?thesis by (cases n) (simp_all add: entry_def)
qed

lemma entry_KFile: "entry t p = Some (KFile c) \<longleftrightarrow> lookup t p = Some (File c)"
proof (cases "lookup t p")
  case None
  then show ?thesis by (simp add: entry_def)
next
  case (Some n)
  then show ?thesis by (cases n) (simp_all add: entry_def)
qed

lemma entry_append:
  "entry t (p @ q) = (case lookup t p of None \<Rightarrow> None | Some n \<Rightarrow> entry n q)"
  by (simp add: entry_def lookup_append split: option.splits)

lemma entry_below_is_dir:
  assumes "entry t (p @ q) \<noteq> None" and "q \<noteq> []"
  shows "entry t p = Some KDir"
proof -
  from assms(1) obtain n where n: "lookup t p = Some n" and e: "entry n q \<noteq> None"
    by (auto simp: entry_append split: option.splits)
  from assms(2) obtain x xs where q: "q = x # xs" by (cases q) auto
  from e q obtain es where "n = Dir es" by (cases n) (auto simp: entry_File_Cons)
  with n show ?thesis by (simp add: entry_def)
qed

lemma entry_prefix_exists:
  assumes "entry t q \<noteq> None" and "prefix p q"
  shows "entry t p \<noteq> None"
proof -
  from assms(2) obtain r where q: "q = p @ r" by (auto simp: prefix_def)
  show ?thesis
  proof (cases "r = []")
    case True
    with assms(1) q show ?thesis by simp
  next
    case False
    with assms(1) q entry_below_is_dir[of t p r] show ?thesis by simp
  qed
qed

lemma entry_strict_prefix_is_dir:
  assumes "entry t q \<noteq> None" and "strict_prefix p q"
  shows "entry t p = Some KDir"
proof -
  from assms(2) obtain r where q: "q = p @ r" and r: "r \<noteq> []"
    by (auto simp: strict_prefix_def prefix_def)
  with assms(1) entry_below_is_dir[of t p r] show ?thesis by simp
qed

lemma file_on_path_iff:
  "file_on_path t p \<longleftrightarrow> (\<exists>q c. prefix q p \<and> entry t q = Some (KFile c))"
proof (induction t p rule: file_on_path.induct)
  case (1 c p)
  have "prefix [] p \<and> entry (File c) [] = Some (KFile c)" by (simp add: entry_Nil)
  then show ?case by (metis file_on_path.simps(1))
next
  case (2 es)
  then show ?case by (auto simp: entry_Nil)
next
  case (3 es x xs)
  show ?case
  proof (cases "map_of es x")
    case None
    have "\<And>q c. prefix q (x # xs) \<Longrightarrow> entry (Dir es) q \<noteq> Some (KFile c)"
    proof -
      fix q c assume "prefix q (x # xs)"
      then show "entry (Dir es) q \<noteq> Some (KFile c)"
        using None by (cases q) (auto simp: entry_Nil entry_Dir_Cons)
    qed
    with None show ?thesis by auto
  next
    case (Some n)
    have "(\<exists>q c. prefix q (x # xs) \<and> entry (Dir es) q = Some (KFile c))
          \<longleftrightarrow> (\<exists>q c. prefix q xs \<and> entry n q = Some (KFile c))"
    proof
      assume "\<exists>q c. prefix q (x # xs) \<and> entry (Dir es) q = Some (KFile c)"
      then obtain q c where q: "prefix q (x # xs)" "entry (Dir es) q = Some (KFile c)" by blast
      then obtain q' where "q = x # q'" "prefix q' xs"
        by (cases q) (auto simp: entry_Nil)
      with q Some show "\<exists>q c. prefix q xs \<and> entry n q = Some (KFile c)"
        by (auto simp: entry_Dir_Cons)
    next
      assume "\<exists>q c. prefix q xs \<and> entry n q = Some (KFile c)"
      then obtain q c where "prefix q xs" "entry n q = Some (KFile c)" by blast
      then have "prefix (x # q) (x # xs) \<and> entry (Dir es) (x # q) = Some (KFile c)"
        using Some by (simp add: entry_Dir_Cons)
      then show "\<exists>q c. prefix q (x # xs) \<and> entry (Dir es) q = Some (KFile c)" by blast
    qed
    with 3[OF Some] Some show ?thesis by simp
  qed
qed

lemma dir_no_file_on_path:
  assumes "entry t p = Some KDir"
  shows "\<not> file_on_path t p"
proof
  assume "file_on_path t p"
  then obtain q c where q: "prefix q p" "entry t q = Some (KFile c)"
    by (auto simp: file_on_path_iff)
  show False
  proof (cases "q = p")
    case True
    with q assms show False by simp
  next
    case False
    with q(1) have "strict_prefix q p" by (simp add: strict_prefix_def)
    from entry_strict_prefix_is_dir[OF _ this] assms q(2) show False by simp
  qed
qed

lemma mem_exists_entry: "mem_exists p f = Inr (entry (tree f) (fs_path p) \<noteq> None)"
  by (simp add: mem_exists_def entry_None)

lemma mem_isdir_entry:
  "mem_isdir strict p f =
     (case entry (tree f) (fs_path p) of
        None \<Rightarrow> (if strict then Inl FileNotFound else Inr False)
      | Some KDir \<Rightarrow> Inr True
      | Some (KFile c) \<Rightarrow> Inr False)"
  by (auto simp: mem_isdir_def entry_def split: option.splits node.splits)

lemma mem_readfile_entry:
  "mem_readfile p f =
     (case entry (tree f) (fs_path p) of
        None \<Rightarrow> Inl FileNotFound
      | Some KDir \<Rightarrow> Inl IsADirectory
      | Some (KFile c) \<Rightarrow> Inr c)"
  by (auto simp: mem_readfile_def entry_def split: option.splits node.splits)

lemma mem_writefile_effect:
  assumes "mem_writefile p c f = Inr f'"
  shows "entry (tree f') = (entry (tree f))(fs_path p \<mapsto> KFile c)"
    and "journal f' = journal f @ [WriteFile p c]"
    and "watches f' = watches f"
    and "fs_path p \<noteq> []"
    and "entry (tree f) (butlast (fs_path p)) = Some KDir"
    and "entry (tree f) (fs_path p) \<noteq> Some KDir"
proof -
  let ?q = "fs_path p"
  from assms have q: "?q \<noteq> []"
    by (auto simp: mem_writefile_def Let_def split: if_splits)
  from assms q obtain es where par: "lookup (tree f) (butlast ?q) = Some (Dir es)"
    by (auto simp: mem_writefile_def Let_def split: option.splits node.splits)
  then have pard: "entry (tree f) (butlast ?q) = Some KDir" by (auto simp: entry_KDir)
  from assms q par have nd: "entry (tree f) ?q \<noteq> Some KDir"
    by (auto simp: mem_writefile_def Let_def entry_KDir split: option.splits node.splits)
  from assms q par have f': "f' = f\<lparr>tree := put ?q (File c) (tree f), journal := journal f @ [WriteFile p c]\<rparr>"
    by (auto simp: mem_writefile_def Let_def split: option.splits node.splits)
  show "journal f' = journal f @ [WriteFile p c]" "watches f' = watches f" by (simp_all add: f')
  show "?q \<noteq> []" by (rule q)
  show "entry (tree f) (butlast ?q) = Some KDir" by (rule pard)
  show "entry (tree f) ?q \<noteq> Some KDir" by (rule nd)
  have nf: "\<not> file_on_path (tree f) (butlast ?q)" by (rule dir_no_file_on_path[OF pard])
  show "entry (tree f') = (entry (tree f))(?q \<mapsto> KFile c)"
  proof
    fix r
    have put: "entry (put ?q (File c) (tree f)) r =
           (if prefix ?q r then entry (File c) (drop (length ?q) r)
            else if strict_prefix r ?q then Some KDir
            else entry (tree f) r)"
      by (rule entry_put[OF q nf])
    show "entry (tree f') r = ((entry (tree f))(?q \<mapsto> KFile c)) r"
    proof (cases "prefix ?q r")
      case True
      then obtain s where r: "r = ?q @ s" by (auto simp: prefix_def)
      show ?thesis
      proof (cases "s = []")
        case True
        with r put show ?thesis by (simp add: f' entry_Nil)
      next
        case False
        then obtain x xs where s: "s = x # xs" by (cases s) auto
        have "entry (tree f) r = None"
        proof (rule ccontr)
          assume "entry (tree f) r \<noteq> None"
          with r False entry_below_is_dir[of "tree f" ?q s] nd show False by simp
        qed
        with r s put show ?thesis by (simp add: f' entry_File_Cons)
      qed
    next
      case False
      note np = False
      show ?thesis
      proof (cases "strict_prefix r ?q")
        case True
        then have "prefix r (butlast ?q)"
          using q by (metis prefix_snoc append_butlast_last_id strict_prefix_def)
        with pard have "entry (tree f) r = Some KDir"
          by (metis entry_strict_prefix_is_dir option.distinct(1) strict_prefix_def)
        with True np put show ?thesis by (auto simp: f')
      next
        case False
        with np put show ?thesis by (auto simp: f')
      qed
    qed
  qed
qed

lemma mem_removefile_effect:
  assumes "mem_removefile p f = Inr f'"
  shows "entry (tree f') = (\<lambda>q. if prefix (fs_path p) q then None else entry (tree f) q)"
    and "journal f' = journal f @ [RemoveFile p]"
    and "watches f' = watches f"
    and "fs_path p \<noteq> []"
    and "\<exists>c. entry (tree f) (fs_path p) = Some (KFile c)"
proof -
  let ?q = "fs_path p"
  from assms obtain c where c: "lookup (tree f) ?q = Some (File c)"
    by (auto simp: mem_removefile_def Let_def split: option.splits node.splits)
  with assms have q: "?q \<noteq> []"
    by (auto simp: mem_removefile_def Let_def split: if_splits)
  from assms c q have f': "f' = f\<lparr>tree := delete ?q (tree f), journal := journal f @ [RemoveFile p]\<rparr>"
    by (auto simp: mem_removefile_def Let_def)
  show "journal f' = journal f @ [RemoveFile p]" "watches f' = watches f" by (simp_all add: f')
  show "?q \<noteq> []" by (rule q)
  show "\<exists>c. entry (tree f) ?q = Some (KFile c)" using c by (auto simp: entry_KFile)
  show "entry (tree f') = (\<lambda>r. if prefix ?q r then None else entry (tree f) r)"
    using q by (auto simp: f' entry_delete)
qed

lemma mem_removedir_effect:
  assumes "mem_removedir p f = Inr f'"
  shows "entry (tree f') = (\<lambda>q. if prefix (fs_path p) q then None else entry (tree f) q)"
    and "journal f' = journal f @ [RemoveDir p]"
    and "watches f' = watches f"
    and "fs_path p \<noteq> []"
    and "entry (tree f) (fs_path p) = Some KDir"
proof -
  let ?q = "fs_path p"
  from assms obtain es where c: "lookup (tree f) ?q = Some (Dir es)"
    by (auto simp: mem_removedir_def Let_def split: option.splits node.splits)
  with assms have q: "?q \<noteq> []"
    by (auto simp: mem_removedir_def Let_def split: if_splits)
  from assms c q have f': "f' = f\<lparr>tree := delete ?q (tree f), journal := journal f @ [RemoveDir p]\<rparr>"
    by (auto simp: mem_removedir_def Let_def)
  show "journal f' = journal f @ [RemoveDir p]" "watches f' = watches f" by (simp_all add: f')
  show "?q \<noteq> []" by (rule q)
  show "entry (tree f) ?q = Some KDir" using c by (auto simp: entry_KDir)
  show "entry (tree f') = (\<lambda>r. if prefix ?q r then None else entry (tree f) r)"
    using q by (auto simp: f' entry_delete)
qed

lemma mem_removefile_ok:
  assumes "entry (tree f) (fs_path p) = Some (KFile c)" and "fs_path p \<noteq> []"
  shows "\<exists>f'. mem_removefile p f = Inr f'"
  using assms by (auto simp: mem_removefile_def Let_def entry_KFile)

lemma mem_removedir_ok:
  assumes "entry (tree f) (fs_path p) = Some KDir" and "fs_path p \<noteq> []"
  shows "\<exists>f'. mem_removedir p f = Inr f'"
  using assms by (auto simp: mem_removedir_def Let_def entry_KDir)

lemma mem_writefile_ok:
  assumes "entry (tree f) (butlast (fs_path p)) = Some KDir" and "fs_path p \<noteq> []"
    and "entry (tree f) (fs_path p) \<noteq> Some KDir"
  shows "\<exists>f'. mem_writefile p c f = Inr f'"
  using assms
  by (auto simp: mem_writefile_def Let_def entry_KDir split: option.splits node.splits)

lemma mem_makedirs_effect:
  assumes "mem_makedirs p f = Inr f'"
  shows "entry (tree f') =
           (\<lambda>q. if prefix q (fs_path p) \<and> entry (tree f) q = None then Some KDir
                else entry (tree f) q)"
    and "journal f' = journal f @ [MakeDirs p]"
    and "watches f' = watches f"
    and "entry (tree f) (fs_path p) = None"
proof -
  let ?q = "fs_path p"
  let ?t = "tree f"
  from assms have nf: "\<not> file_on_path ?t ?q" and ne: "lookup ?t ?q = None"
    by (auto simp: mem_makedirs_def Let_def split: if_splits)
  from assms nf ne have f': "f' = f\<lparr>tree := put ?q (Dir []) ?t, journal := journal f @ [MakeDirs p]\<rparr>"
    by (auto simp: mem_makedirs_def Let_def)
  show "journal f' = journal f @ [MakeDirs p]" "watches f' = watches f" by (simp_all add: f')
  show en: "entry ?t ?q = None" using ne by (simp add: entry_None)
  have q: "?q \<noteq> []" using ne by (cases ?q) auto
  have "prefix (butlast ?q) ?q" by (simp add: prefixeq_butlast)
  then have nf': "\<not> file_on_path ?t (butlast ?q)"
    using nf by (auto simp: file_on_path_iff intro: prefix_order.trans)
  show "entry (tree f') =
           (\<lambda>r. if prefix r ?q \<and> entry ?t r = None then Some KDir else entry ?t r)"
  proof
    fix r
    have put: "entry (put ?q (Dir []) ?t) r =
           (if prefix ?q r then entry (Dir []) (drop (length ?q) r)
            else if strict_prefix r ?q then Some KDir
            else entry ?t r)"
      by (rule entry_put[OF q nf'])
    show "entry (tree f') r = (if prefix r ?q \<and> entry ?t r = None then Some KDir else entry ?t r)"
    proof (cases "prefix ?q r")
      case True
      then obtain s where r: "r = ?q @ s" by (auto simp: prefix_def)
      show ?thesis
      proof (cases "s = []")
        case True
        with r put en show ?thesis by (simp add: f' entry_Nil)
      next
        case False
        have "entry ?t r = None"
        proof (rule ccontr)
          assume "entry ?t r \<noteq> None"
          with r False entry_below_is_dir[of ?t ?q s] en show False by simp
        qed
        moreover have "\<not> prefix r ?q" using r False by (auto simp: prefix_def)
        ultimately show ?thesis using r False put by (simp add: f' entry_Dir_Nil)
      qed
    next
      case False
      note np = False
      show ?thesis
      proof (cases "strict_prefix r ?q")
        case True
        then have pr: "prefix r ?q" by (simp add: strict_prefix_def)
        have "entry ?t r = None \<or> entry ?t r = Some KDir"
        proof (cases "entry ?t r")
          case None
          then show ?thesis by simp
        next
          case (Some k)
          with nf pr show ?thesis by (cases k) (auto simp: file_on_path_iff)
        qed
        with True np put pr show ?thesis by (auto simp: f')
      next
        case False
        with np have "\<not> prefix r ?q" by (auto simp: strict_prefix_def)
        with False np put show ?thesis by (auto simp: f')
      qed
    qed
  qed
qed

lemma mem_makedirs_ok:
  assumes "entry (tree f) (fs_path p) = None" and "\<not> file_on_path (tree f) (fs_path p)"
  shows "\<exists>f'. mem_makedirs p f = Inr f'"
  using assms by (auto simp: mem_makedirs_def Let_def entry_None)

lemma mem_listdir_effect:
  assumes "mem_listdir p f = Inr names"
  shows "set names = {n. entry (tree f) (fs_path p @ [n]) \<noteq> None}"
    and "distinct names"
    and "entry (tree f) (fs_path p) = Some KDir"
proof -
  from assms obtain es where es: "lookup (tree f) (fs_path p) = Some (Dir es)"
    and names: "names = remdups (map fst es)"
    by (auto simp: mem_listdir_def split: option.splits node.splits)
  show "distinct names" by (simp add: names)
  show "entry (tree f) (fs_path p) = Some KDir" using es by (auto simp: entry_KDir)
  have "\<And>n. entry (tree f) (fs_path p @ [n]) \<noteq> None \<longleftrightarrow> map_of es n \<noteq> None"
    by (auto simp: entry_append es entry_Dir_Cons entry_Nil split: option.splits)
  then show "set names = {n. entry (tree f) (fs_path p @ [n]) \<noteq> None}"
    by (auto simp: names map_of_eq_None_iff)
qed

lemma mem_simps:
  "listdir (mem strict) = mem_listdir" "isdir (mem strict) = mem_isdir strict"
  "exists (mem strict) = mem_exists" "readfile (mem strict) = mem_readfile"
  "writefile (mem strict) = mem_writefile" "removefile (mem strict) = mem_removefile"
  "removedir (mem strict) = mem_removedir" "makedirs (mem strict) = mem_makedirs"
  "watchdir (mem strict) = mem_watchdir" "unwatchdir (mem strict) = mem_unwatchdir"
  by (simp_all add: mem_def)

section \<open>Write and MkDir on the in-memory file system\<close>

lemma remove_conflicting_dir_mem:
  assumes "target_fs self = mem strict"
  shows "remove_conflicting_dir self tp g =
           (Inr (), (if entry (tree g) (fs_path tp) = Some KDir
                     then (case mem_removedir tp g of Inl e \<Rightarrow> g | Inr g' \<Rightarrow> g')
                     else g))"
  using assms
  by (auto simp: remove_conflicting_dir_def prog_simps mem_simps mem_isdir_entry
           split: option.splits kind.splits sum.splits)

lemma remove_conflicting_file_mem:
  assumes "target_fs self = mem strict"
  shows "remove_conflicting_file self tp g =
           (Inr (), (if \<exists>c. entry (tree g) (fs_path tp) = Some (KFile c)
                     then (case mem_removefile tp g of Inl e \<Rightarrow> g | Inr g' \<Rightarrow> g')
                     else g))"
proof (cases "entry (tree g) (fs_path tp)")
  case None
  then have "mem_removefile tp g = Inl FileNotFound"
    by (simp add: mem_removefile_def entry_None)
  with None assms show ?thesis
    by (auto simp: remove_conflicting_file_def prog_simps mem_simps mem_isdir_entry)
next
  case (Some k)
  with assms show ?thesis
    by (cases k)
       (auto simp: remove_conflicting_file_def prog_simps mem_simps mem_isdir_entry
             split: sum.splits)
qed

lemma write_same_content:
  assumes fs: "target_fs self = mem strict"
    and held: "entry (tree f) (fs_path (join (target_dir_path self) p)) = Some (KFile c)"
  shows "handle_request self (Write p c) f = (Inr (), f)"
proof -
  let ?tp = "join (target_dir_path self) p"
  have "entry (tree f) (fs_path (dirname ?tp)) \<noteq> None"
    using entry_prefix_exists[OF _ fs_path_dirname_prefix[of ?tp], of "tree f"] held by simp
  then show ?thesis
    using held
    by (simp add: Let_def prog_simps mem_simps fs mem_exists_entry mem_readfile_entry
          remove_conflicting_dir_mem[OF fs])
qed

lemma physical_writes_append:
  "journal g = journal f @ [x] \<Longrightarrow>
     physical_writes g = physical_writes f + (if is_write x then 1 else 0)"
  by (simp add: physical_writes_def)

lemma handle_request_write_mem:
  assumes fs: "target_fs self = mem strict"
  shows "handle_request self (Write p c) f =
     (case (if entry (tree f) (fs_path (dirname (join (target_dir_path self) p))) \<noteq> None then Inr f
            else mem_makedirs (dirname (join (target_dir_path self) p)) f) of
        Inl e \<Rightarrow> (Inl e, f)
      | Inr g1 \<Rightarrow>
          (case snd (remove_conflicting_dir self (join (target_dir_path self) p) g1) of g2 \<Rightarrow>
             (case entry (tree g2) (fs_path (join (target_dir_path self) p)) of
                None \<Rightarrow> call (mem_writefile (join (target_dir_path self) p) c) g2
              | Some KDir \<Rightarrow> (Inl IsADirectory, g2)
              | Some (KFile old) \<Rightarrow>
                  (if old \<noteq> c then call (mem_writefile (join (target_dir_path self) p) c) g2
                   else (Inr (), g2)))))"
proof -
  let ?tp = "join (target_dir_path self) p"
  define rest :: "(unit, memfs) prog" where "rest =
      bind (bind (query (exists (target_fs self) ?tp)) (\<lambda>present.
              if \<not> present then ret True
              else bind (query (exists (target_fs self) ?tp)) (\<lambda>present'.
                     if present'
                     then bind (query (readfile (target_fs self) ?tp)) (\<lambda>old.
                            ret (old \<noteq> c))
                     else ret False))) (\<lambda>needs_write.
        if needs_write then call (writefile (target_fs self) ?tp c)
        else ret ())"
  have hr: "handle_request self (Write p c) f =
      bind (query (exists (target_fs self) (dirname ?tp))) (\<lambda>dir_exists.
      bind (if \<not> dir_exists then call (makedirs (target_fs self) (dirname ?tp)) else ret ()) (\<lambda>_.
      bind (remove_conflicting_dir self ?tp) (\<lambda>_. rest))) f"
    by (simp add: Let_def rest_def)
  have rest: "rest g2 =
             (case entry (tree g2) (fs_path ?tp) of
                None \<Rightarrow> call (mem_writefile ?tp c) g2
              | Some KDir \<Rightarrow> (Inl IsADirectory, g2)
              | Some (KFile old) \<Rightarrow>
                  (if old \<noteq> c then call (mem_writefile ?tp c) g2 else (Inr (), g2)))" for g2
    by (simp add: rest_def prog_simps mem_simps fs mem_exists_entry mem_readfile_entry
             split: option.splits kind.splits)
  have rc: "remove_conflicting_dir self ?tp g = (Inr (), snd (remove_conflicting_dir self ?tp g))" for g
    by (simp add: remove_conflicting_dir_mem[OF fs])
  have step: "(case remove_conflicting_dir self ?tp g of
                 (Inl e, s') \<Rightarrow> (Inl e, s') | (Inr x, s') \<Rightarrow> rest s')
              = rest (snd (remove_conflicting_dir self ?tp g))" for g
    by (subst rc) simp
  show ?thesis
    unfolding hr
    by (simp add: bind_apply query_apply call_apply ret_apply mem_simps fs mem_exists_entry
          step rest split: sum.splits)
qed

lemma write_establishes:
  assumes fs: "target_fs self = mem strict"
    and run: "handle_request self (Write p c) f = (Inr (), f1)"
  shows "entry (tree f1) (fs_path (join (target_dir_path self) p)) = Some (KFile c)"
    and "physical_writes f1 \<le> physical_writes f + 1"
proof -
  let ?tp = "join (target_dir_path self) p"
  let ?q = "fs_path ?tp"
  obtain g1 where g1: "(if entry (tree f) (fs_path (dirname ?tp)) \<noteq> None then Inr f
            else mem_makedirs (dirname ?tp) f) = Inr g1"
    using run unfolding handle_request_write_mem[OF fs]
    by (cases "(if entry (tree f) (fs_path (dirname ?tp)) \<noteq> None then Inr f
            else mem_makedirs (dirname ?tp) f)") auto
  define g2 where "g2 = snd (remove_conflicting_dir self ?tp g1)"
  have w1: "physical_writes g1 = physical_writes f"
  proof (cases "entry (tree f) (fs_path (dirname ?tp)) \<noteq> None")
    case True
    with g1 show ?thesis by simp
  next
    case False
    with g1 have "mem_makedirs (dirname ?tp) f = Inr g1" by simp
    from mem_makedirs_effect(2)[OF this] show ?thesis by (simp add: physical_writes_append)
  qed
  have w2: "physical_writes g2 = physical_writes g1"
  proof (cases "mem_removedir ?tp g1")
    case (Inl e)
    then show ?thesis by (simp add: g2_def remove_conflicting_dir_mem[OF fs])
  next
    case (Inr g')
    from mem_removedir_effect(2)[OF this] Inr show ?thesis
      by (simp add: g2_def remove_conflicting_dir_mem[OF fs] physical_writes_append)
  qed
  from run have tail:
    "(case entry (tree g2) ?q of
                None \<Rightarrow> call (mem_writefile ?tp c) g2
              | Some KDir \<Rightarrow> (Inl IsADirectory, g2)
              | Some (KFile old) \<Rightarrow>
                  (if old \<noteq> c then call (mem_writefile ?tp c) g2 else (Inr (), g2)))
     = (Inr (), f1)"
    unfolding handle_request_write_mem[OF fs] g1 g2_def by simp
  have "entry (tree f1) ?q = Some (KFile c) \<and> physical_writes f1 \<le> physical_writes g2 + 1"
  proof (cases "entry (tree g2) ?q")
    case None
    with tail have "mem_writefile ?tp c g2 = Inr f1"
      by (cases "mem_writefile ?tp c g2") (auto simp: call_apply)
    from mem_writefile_effect(1,2)[OF this] show ?thesis
      by (simp add: physical_writes_append)
  next
    case (Some k)
    show ?thesis
    proof (cases k)
      case KDir
      with Some tail show ?thesis by simp
    next
      case (KFile old)
      show ?thesis
      proof (cases "old = c")
        case True
        with Some KFile tail show ?thesis by simp
      next
        case False
        with Some KFile tail have "mem_writefile ?tp c g2 = Inr f1"
          by (cases "mem_writefile ?tp c g2") (auto simp: call_apply)
        from mem_writefile_effect(1,2)[OF this] show ?thesis
          by (simp add: physical_writes_append)
      qed
    qed
  qed
  with w1 w2 show "entry (tree f1) ?q = Some (KFile c)"
    and "physical_writes f1 \<le> physical_writes f + 1" by simp_all
qed

section \<open>Claims about single requests on the target\<close>

lemma butlast_strict_prefix: "q \<noteq> [] \<Longrightarrow> strict_prefix (butlast q) q"
  by (cases q rule: rev_cases) (auto simp: strict_prefix_def)

text \<open>
  C7. On the in-memory file system: when the target already holds the file \<open>p\<close>
  with exactly the content \<open>c\<close>, \<^verbatim>\<open>Write{p, c}\<close> returns with the file system
  unchanged, the journal of physical operations included, so no \<^verbatim>\<open>writefile\<close>
  takes place. When a first \<^verbatim>\<open>Write{p, c}\<close> returns, a second one changes nothing,
  and the first has carried out at most one \<^verbatim>\<open>writefile\<close>.
\<close>

theorem write_twice_writes_once:
  assumes "target_fs self = mem strict"
  shows "(entry (tree f) (fs_path (join (target_dir_path self) p)) = Some (KFile c) \<longrightarrow>
            handle_request self (Write p c) f = (Inr (), f)) \<and>
         (\<forall>f1. handle_request self (Write p c) f = (Inr (), f1) \<longrightarrow>
            handle_request self (Write p c) f1 = (Inr (), f1) \<and>
            physical_writes f1 \<le> physical_writes f + 1)"
proof (intro conjI allI impI)
  assume "entry (tree f) (fs_path (join (target_dir_path self) p)) = Some (KFile c)"
  then show "handle_request self (Write p c) f = (Inr (), f)"
    by (rule write_same_content[OF assms])
next
  fix f1 assume run: "handle_request self (Write p c) f = (Inr (), f1)"
  from write_establishes(1)[OF assms run]
  show "handle_request self (Write p c) f1 = (Inr (), f1)"
    by (rule write_same_content[OF assms])
  show "physical_writes f1 \<le> physical_writes f + 1"
    by (rule write_establishes(2)[OF assms run])
qed

theorem write_twice_writes_once_witness:
  "handle_request example_target (Write ''a/new.txt'' ''hello'') example_target_fs =
     (Inr (), snd (handle_request example_target (Write ''a/new.txt'' ''hello'') example_target_fs)) \<and>
   handle_request example_target (Write ''a/new.txt'' ''hello'')
     (snd (handle_request example_target (Write ''a/new.txt'' ''hello'') example_target_fs)) =
     (Inr (), snd (handle_request example_target (Write ''a/new.txt'' ''hello'') example_target_fs)) \<and>
   physical_writes (snd (handle_request example_target (Write ''a/new.txt'' ''hello'') example_target_fs))
     \<le> physical_writes example_target_fs + 1 \<and>
   handle_request example_target (Write ''a/keep.txt'' ''kept'') example_target_fs =
     (Inr (), example_target_fs)"
proof -
  have fs: "target_fs example_target = mem True" by (simp add: example_target_def)
  have run: "handle_request example_target (Write ''a/new.txt'' ''hello'') example_target_fs =
     (Inr (), snd (handle_request example_target (Write ''a/new.txt'' ''hello'') example_target_fs))"
    by code_simp
  have held: "entry (tree example_target_fs)
     (fs_path (join (target_dir_path example_target) ''a/keep.txt'')) = Some (KFile ''kept'')"
    by code_simp
  from write_twice_writes_once[OF fs, of example_target_fs "''a/new.txt''" "''hello''"] run
  have "handle_request example_target (Write ''a/new.txt'' ''hello'')
     (snd (handle_request example_target (Write ''a/new.txt'' ''hello'') example_target_fs)) =
     (Inr (), snd (handle_request example_target (Write ''a/new.txt'' ''hello'') example_target_fs)) \<and>
   physical_writes (snd (handle_request example_target (Write ''a/new.txt'' ''hello'') example_target_fs))
     \<le> physical_writes example_target_fs + 1"
    by blast
  moreover from write_twice_writes_once[OF fs, of example_target_fs "''a/keep.txt''" "''kept''"] held
  have "handle_request example_target (Write ''a/keep.txt'' ''kept'') example_target_fs =
     (Inr (), example_target_fs)" by blast
  ultimately show ?thesis using run by blast
qed

text \<open>
  C8. On the in-memory file system, for a target path that is not the root of the
  file system: \<^verbatim>\<open>MkDir{p}\<close> on a path that holds a file returns and leaves a
  directory there; \<^verbatim>\<open>Write{p, c}\<close> on a path that holds a directory returns and
  leaves a file with content \<open>c\<close> there.
\<close>

theorem type_conflicts_resolved:
  assumes fs: "target_fs self = mem strict"
    and q: "fs_path (join (target_dir_path self) p) \<noteq> []"
  shows "(entry (tree f) (fs_path (join (target_dir_path self) p)) = Some (KFile c0) \<longrightarrow>
            (\<exists>f'. handle_request self (MkDir p) f = (Inr (), f') \<and>
                  entry (tree f') (fs_path (join (target_dir_path self) p)) = Some KDir)) \<and>
         (entry (tree f) (fs_path (join (target_dir_path self) p)) = Some KDir \<longrightarrow>
            (\<exists>f'. handle_request self (Write p c) f = (Inr (), f') \<and>
                  entry (tree f') (fs_path (join (target_dir_path self) p)) = Some (KFile c)))"
proof (intro conjI impI)
  let ?tp = "join (target_dir_path self) p"
  let ?q = "fs_path ?tp"
  assume isfile: "entry (tree f) ?q = Some (KFile c0)"
  from mem_removefile_ok[OF isfile q] obtain g where g: "mem_removefile ?tp f = Inr g" by blast
  note eg = mem_removefile_effect(1)[OF g]
  have gq: "entry (tree g) ?q = None" by (simp add: eg)
  have nf: "\<not> file_on_path (tree g) ?q"
  proof
    assume "file_on_path (tree g) ?q"
    then obtain r c where r: "prefix r ?q" "entry (tree g) r = Some (KFile c)"
      by (auto simp: file_on_path_iff)
    then have "r \<noteq> ?q" using gq by auto
    with r(1) have sp: "strict_prefix r ?q" by (simp add: strict_prefix_def)
    then have "\<not> prefix ?q r" by (auto simp: strict_prefix_def)
    with r(2) have "entry (tree f) r = Some (KFile c)" by (simp add: eg)
    moreover have "entry (tree f) r = Some KDir"
      by (rule entry_strict_prefix_is_dir[OF _ sp]) (simp add: isfile)
    ultimately show False by simp
  qed
  from mem_makedirs_ok[OF gq nf] obtain f' where f': "mem_makedirs ?tp g = Inr f'" by blast
  have "entry (tree f') ?q = Some KDir"
    by (simp add: mem_makedirs_effect(1)[OF f'] gq)
  moreover have "handle_request self (MkDir p) f = (Inr (), f')"
    using isfile g gq f'
    by (simp add: Let_def bind_apply query_apply call_apply remove_conflicting_file_mem[OF fs]
          mem_simps fs mem_exists_entry)
  ultimately show "\<exists>f'. handle_request self (MkDir p) f = (Inr (), f') \<and>
                  entry (tree f') ?q = Some KDir" by blast
next
  let ?tp = "join (target_dir_path self) p"
  let ?q = "fs_path ?tp"
  assume isdir_q: "entry (tree f) ?q = Some KDir"
  have par: "entry (tree f) (fs_path (dirname ?tp)) \<noteq> None"
    using entry_prefix_exists[OF _ fs_path_dirname_prefix[of ?tp], of "tree f"] isdir_q by simp
  from mem_removedir_ok[OF isdir_q q] obtain g where g: "mem_removedir ?tp f = Inr g" by blast
  note eg = mem_removedir_effect(1)[OF g]
  have gq: "entry (tree g) ?q = None" by (simp add: eg)
  have sp: "strict_prefix (butlast ?q) ?q"
    by (rule butlast_strict_prefix[OF q])
  then have "\<not> prefix ?q (butlast ?q)" by (auto simp: strict_prefix_def)
  then have "entry (tree g) (butlast ?q) = entry (tree f) (butlast ?q)" by (simp add: eg)
  also have "\<dots> = Some KDir"
    by (rule entry_strict_prefix_is_dir[OF _ sp]) (simp add: isdir_q)
  finally have gp: "entry (tree g) (butlast ?q) = Some KDir" .
  from mem_writefile_ok[OF gp q, of c] gq obtain f' where f': "mem_writefile ?tp c g = Inr f'"
    by auto
  have "entry (tree f') ?q = Some (KFile c)"
    by (simp add: mem_writefile_effect(1)[OF f'])
  moreover have "handle_request self (Write p c) f = (Inr (), f')"
    using par isdir_q g gq f'
    by (simp add: handle_request_write_mem[OF fs] remove_conflicting_dir_mem[OF fs] call_apply
          del: handle_request.simps)
  ultimately show "\<exists>f'. handle_request self (Write p c) f = (Inr (), f') \<and>
                  entry (tree f') ?q = Some (KFile c)" by blast
qed

theorem type_conflicts_resolved_witness:
  "(\<exists>f'. handle_request example_target (MkDir ''a/keep.txt'') example_target_fs = (Inr (), f') \<and>
         entry (tree f') (fs_path (join (target_dir_path example_target) ''a/keep.txt'')) = Some KDir) \<and>
   (\<exists>f'. handle_request example_target (Write ''x'' ''now a file'') example_target_fs = (Inr (), f') \<and>
         entry (tree f') (fs_path (join (target_dir_path example_target) ''x''))
           = Some (KFile ''now a file''))"
proof -
  have fs: "target_fs example_target = mem True" by (simp add: example_target_def)
  have q1: "fs_path (join (target_dir_path example_target) ''a/keep.txt'') \<noteq> []" by code_simp
  have q2: "fs_path (join (target_dir_path example_target) ''x'') \<noteq> []" by code_simp
  have h1: "entry (tree example_target_fs)
     (fs_path (join (target_dir_path example_target) ''a/keep.txt'')) = Some (KFile ''kept'')"
    by code_simp
  have h2: "entry (tree example_target_fs)
     (fs_path (join (target_dir_path example_target) ''x'')) = Some KDir"
    by code_simp
  from type_conflicts_resolved[OF fs q1, of example_target_fs "''kept''"] h1
  have 1: "\<exists>f'. handle_request example_target (MkDir ''a/keep.txt'') example_target_fs = (Inr (), f') \<and>
         entry (tree f') (fs_path (join (target_dir_path example_target) ''a/keep.txt'')) = Some KDir"
    by blast
  from type_conflicts_resolved[OF fs q2, of example_target_fs _ "''now a file''"] h2
  have 2: "\<exists>f'. handle_request example_target (Write ''x'' ''now a file'') example_target_fs = (Inr (), f') \<and>
         entry (tree f') (fs_path (join (target_dir_path example_target) ''x''))
           = Some (KFile ''now a file'')"
    by blast
  from 1 2 show ?thesis by blast
qed

section \<open>Which failures leave the handlers\<close>

lemma unwatch_quietly_result:
  "\<exists>s'. unwatch_quietly self p s = (Inr (), s') \<and> rpc_state s' = rpc_state s \<and>
        watch_dirs s' = watch_dirs s \<and> watch_files s' = watch_files s"
  by (cases "unwatchdir (fs self) (join (dir_path self) p) (fs_state s)")
     (simp_all add: unwatch_quietly_def Let_def prog_simps)

lemma unwatch_loop_result:
  "\<exists>s'. for_each ps (unwatch_quietly self) s = (Inr (), s') \<and> rpc_state s' = rpc_state s \<and>
        watch_dirs s' = watch_dirs s \<and> watch_files s' = watch_files s"
proof (induction ps arbitrary: s)
  case Nil
  then show ?case by (simp add: ret_apply)
next
  case (Cons p ps)
  from unwatch_quietly_result[of self p s] obtain s1 where
    s1: "unwatch_quietly self p s = (Inr (), s1)" "rpc_state s1 = rpc_state s"
        "watch_dirs s1 = watch_dirs s" "watch_files s1 = watch_files s" by blast
  from Cons.IH[of s1] s1 show ?case by (auto simp: bind_apply)
qed

lemma removed_outcome:
  "fst (handle_event self (FileSystemEvent FILE_OR_SUBDIR_REMOVED event_path) s) =
     (case relpath (cwd self) event_path (dir_path self) of
        Inl e \<Rightarrow> Inl e
      | Inr relative_path \<Rightarrow>
          (case rpc_handle self (Remove relative_path) (rpc_state s) of
             Inl e \<Rightarrow> Inl e
           | Inr r \<Rightarrow> Inr ()))"
proof (cases "relpath (cwd self) event_path (dir_path self)")
  case (Inl e)
  then show ?thesis by (simp add: prog_simps)
next
  case (Inr rel)
  from unwatch_loop_result[of "filter (prefix rel) (watch_dirs s)" self s] obtain s' where
    s': "for_each (filter (prefix rel) (watch_dirs s)) (unwatch_quietly self) s = (Inr (), s')"
        "rpc_state s' = rpc_state s" by blast
  show ?thesis using Inr s'
    by (simp add: Let_def bind_apply lift_apply modify_apply send_apply split: sum.splits)
qed

lemma try_blocks_swallow:
  "fst (remove_conflicting_dir self tp f) = Inr ()"
  "fst (remove_conflicting_file self tp f) = Inr ()"
  by (simp_all add: remove_conflicting_dir_def remove_conflicting_file_def try_pass_apply)

lemma for_each_Cons_apply:
  "for_each (item # items) body s =
     (case body item s of (Inl e, s') \<Rightarrow> (Inl e, s') | (Inr u, s') \<Rightarrow> for_each items body s')"
  by (simp add: bind_apply)

lemma handle_event_modified_outcome:
  "handle_event self (FileSystemEvent FILE_MODIFIED event_path) s =
     (case relpath (cwd self) event_path (dir_path self) of
        Inl e \<Rightarrow> (Inl e, s)
      | Inr relative_path \<Rightarrow>
          (case readfile (fs self) event_path (fs_state s) of
             Inl e \<Rightarrow> (Inl e, s)
           | Inr content \<Rightarrow> send self (Write relative_path content) s))"
  by (simp add: bind_apply lift_apply fs_query_apply split: sum.splits)

lemma handle_event_added_outcome:
  "handle_event self (FileSystemEvent FILE_OR_SUBDIR_ADDED event_path) s =
     (case relpath (cwd self) event_path (dir_path self) of
        Inl e \<Rightarrow> (Inl e, s)
      | Inr relative_path \<Rightarrow>
          (case isdir (fs self) event_path (fs_state s) of
             Inl e \<Rightarrow> (Inl e, s)
           | Inr is_dir \<Rightarrow>
               if is_dir then
                 (case watchdir (fs self) event_path (fs_state s) of
                    Inl e \<Rightarrow> (Inl e, watch_dirs_update (set_add relative_path) s)
                  | Inr f1 \<Rightarrow>
                      (case replicate_directory (recursion_limit self) self event_path
                              ((watch_dirs_update (set_add relative_path) s)\<lparr>fs_state := f1\<rparr>) of
                         (Inl e, s') \<Rightarrow> (Inl e, s')
                       | (Inr u, s') \<Rightarrow>
                           (case send self (MkDir relative_path) s' of
                              (Inl e, s'') \<Rightarrow> (Inl e, s'')
                            | (Inr u, s'') \<Rightarrow>
                                (Inr (), watch_files_update (set_add relative_path) s''))))
               else
                 (case readfile (fs self) event_path (fs_state s) of
                    Inl e \<Rightarrow> (Inl e, s)
                  | Inr content \<Rightarrow>
                      (case send self (Write relative_path content) s of
                         (Inl e, s') \<Rightarrow> (Inl e, s')
                       | (Inr u, s') \<Rightarrow>
                           (Inr (), watch_files_update (set_add relative_path) s')))))"
  by (simp add: bind_apply lift_apply fs_query_apply fs_call_apply modify_apply ret_apply
           split: sum.splits prod.splits)

lemma replicate_item_outcome:
  "replicate_item recurse self current_path item s =
     (case relpath (cwd self) (join current_path item) (dir_path self) of
        Inl e \<Rightarrow> (Inl e, s)
      | Inr relative_path \<Rightarrow>
          (case isdir (fs self) (join current_path item) (fs_state s) of
             Inl e \<Rightarrow> (Inl e, s)
           | Inr is_dir \<Rightarrow>
               if is_dir then
                 (case send self (MkDir relative_path) s of
                    (Inl e, s') \<Rightarrow> (Inl e, s')
                  | (Inr u, s') \<Rightarrow>
                      (case watchdir (fs self) (join current_path item) (fs_state s') of
                         Inl e \<Rightarrow> (Inl e, watch_dirs_update (set_add relative_path) s')
                       | Inr f1 \<Rightarrow>
                           recurse (join current_path item)
                             ((watch_dirs_update (set_add relative_path) s')\<lparr>fs_state := f1\<rparr>)))
               else
                 (case readfile (fs self) (join current_path item) (fs_state s) of
                    Inl e \<Rightarrow> (Inl e, s)
                  | Inr content \<Rightarrow>
                      (case send self (Write relative_path content) s of
                         (Inl e, s') \<Rightarrow> (Inl e, s')
                       | (Inr u, s') \<Rightarrow>
                           (Inr (), watch_files_update (set_add relative_path) s')))))"
  by (simp add: replicate_item_def Let_def bind_apply lift_apply fs_query_apply fs_call_apply
           modify_apply split: sum.splits prod.splits)

lemma replicate_directory_outcome:
  "replicate_directory 0 self current_path s = (Inl RecursionError, s)"
  "replicate_directory (Suc depth) self current_path s =
     (case listdir (fs self) current_path (fs_state s) of
        Inl e \<Rightarrow> (Inl e, s)
      | Inr items \<Rightarrow>
          for_each items (replicate_item (replicate_directory depth self) self current_path) s)"
  by (simp_all add: raise_apply bind_apply fs_query_apply split: sum.splits)

lemma handle_request_write_outcome:
  "handle_request target (Write p c) f =
     (case exists (target_fs target) (dirname (join (target_dir_path target) p)) f of
        Inl e \<Rightarrow> (Inl e, f)
      | Inr dir_exists \<Rightarrow>
          (case (if dir_exists then Inr f
                 else makedirs (target_fs target) (dirname (join (target_dir_path target) p)) f) of
             Inl e \<Rightarrow> (Inl e, f)
           | Inr g1 \<Rightarrow>
               (case snd (remove_conflicting_dir target (join (target_dir_path target) p) g1) of g2 \<Rightarrow>
                  (case exists (target_fs target) (join (target_dir_path target) p) g2 of
                     Inl e \<Rightarrow> (Inl e, g2)
                   | Inr present \<Rightarrow>
                       if present then
                         (case readfile (target_fs target) (join (target_dir_path target) p) g2 of
                            Inl e \<Rightarrow> (Inl e, g2)
                          | Inr old \<Rightarrow>
                              if old \<noteq> c then
                                (case writefile (target_fs target) (join (target_dir_path target) p) c g2 of
                                   Inl e \<Rightarrow> (Inl e, g2)
                                 | Inr g3 \<Rightarrow> (Inr (), g3))
                              else (Inr (), g2))
                       else
                         (case writefile (target_fs target) (join (target_dir_path target) p) c g2 of
                            Inl e \<Rightarrow> (Inl e, g2)
                          | Inr g3 \<Rightarrow> (Inr (), g3))))))"
proof -
  let ?tp = "join (target_dir_path target) p"
  define rest :: "(unit, 'a) prog" where "rest =
      bind (bind (query (exists (target_fs target) ?tp)) (\<lambda>present.
              if \<not> present then ret True
              else bind (query (exists (target_fs target) ?tp)) (\<lambda>present'.
                     if present'
                     then bind (query (readfile (target_fs target) ?tp)) (\<lambda>old.
                            ret (old \<noteq> c))
                     else ret False))) (\<lambda>needs_write.
        if needs_write then call (writefile (target_fs target) ?tp c)
        else ret ())"
  have hr: "handle_request target (Write p c) f =
      bind (query (exists (target_fs target) (dirname ?tp))) (\<lambda>dir_exists.
      bind (if \<not> dir_exists then call (makedirs (target_fs target) (dirname ?tp)) else ret ()) (\<lambda>_.
      bind (remove_conflicting_dir target ?tp) (\<lambda>_. rest))) f"
    by (simp add: Let_def rest_def)
  have rest: "rest g2 =
     (case exists (target_fs target) ?tp g2 of
        Inl e \<Rightarrow> (Inl e, g2)
      | Inr present \<Rightarrow>
          if present then
            (case readfile (target_fs target) ?tp g2 of
               Inl e \<Rightarrow> (Inl e, g2)
             | Inr old \<Rightarrow>
                 if old \<noteq> c then
                   (case writefile (target_fs target) ?tp c g2 of
                      Inl e \<Rightarrow> (Inl e, g2)
                    | Inr g3 \<Rightarrow> (Inr (), g3))
                 else (Inr (), g2))
          else
            (case writefile (target_fs target) ?tp c g2 of
               Inl e \<Rightarrow> (Inl e, g2)
             | Inr g3 \<Rightarrow> (Inr (), g3)))" for g2
    by (simp add: rest_def bind_apply query_apply call_apply ret_apply split: sum.splits)
  have rc: "remove_conflicting_dir target ?tp g = (Inr (), snd (remove_conflicting_dir target ?tp g))" for g
    using try_blocks_swallow(1)[of target ?tp g]
    by (cases "remove_conflicting_dir target ?tp g") auto
  have step: "(case remove_conflicting_dir target ?tp g of
                 (Inl e, s') \<Rightarrow> (Inl e, s') | (Inr x, s') \<Rightarrow> rest s')
              = rest (snd (remove_conflicting_dir target ?tp g))" for g
    by (subst rc) simp
  show ?thesis
    unfolding hr
    by (simp add: bind_apply query_apply call_apply ret_apply step rest split: sum.splits)
qed

lemma handle_request_mkdir_outcome:
  "handle_request target (MkDir p) f =
     (case snd (remove_conflicting_file target (join (target_dir_path target) p) f) of g \<Rightarrow>
        (case exists (target_fs target) (join (target_dir_path target) p) g of
           Inl e \<Rightarrow> (Inl e, g)
         | Inr present \<Rightarrow>
             if present then (Inr (), g)
             else (case makedirs (target_fs target) (join (target_dir_path target) p) g of
                     Inl e \<Rightarrow> (Inl e, g)
                   | Inr g' \<Rightarrow> (Inr (), g'))))"
proof -
  let ?tp = "join (target_dir_path target) p"
  have rc: "remove_conflicting_file target ?tp g = (Inr (), snd (remove_conflicting_file target ?tp g))" for g
    using try_blocks_swallow(2)[of target ?tp g]
    by (cases "remove_conflicting_file target ?tp g") auto
  have step: "bind (remove_conflicting_file target ?tp) k g
              = k () (snd (remove_conflicting_file target ?tp g))" for k :: "unit \<Rightarrow> (unit, 'a) prog" and g
    by (subst bind_apply, subst rc) simp
  show ?thesis
    by (simp add: Let_def step)
       (simp add: bind_apply query_apply call_apply ret_apply split: sum.splits)
qed

lemma handle_request_remove_outcome:
  "handle_request target (Remove p) f =
     (case exists (target_fs target) (join (target_dir_path target) p) f of
        Inl e \<Rightarrow> (Inl e, f)
      | Inr present \<Rightarrow>
          if present then
            (case isdir (target_fs target) (join (target_dir_path target) p) f of
               Inl e \<Rightarrow> (Inl e, f)
             | Inr is_dir \<Rightarrow>
                 if is_dir then
                   (case removedir (target_fs target) (join (target_dir_path target) p) f of
                      Inl e \<Rightarrow> (Inl e, f)
                    | Inr f' \<Rightarrow> (Inr (), f'))
                 else
                   (case removefile (target_fs target) (join (target_dir_path target) p) f of
                      Inl e \<Rightarrow> (Inl e, f)
                    | Inr f' \<Rightarrow> (Inr (), f')))
          else (Inr (), f))"
  by (simp add: Let_def bind_apply query_apply call_apply ret_apply split: sum.splits)

lemma sync_item_outcome:
  "sync_item descend target dirs files target_path name f =
     (case relpath (target_cwd target) (join target_path name) (target_dir_path target) of
        Inl e \<Rightarrow> (Inl e, f)
      | Inr relative_path \<Rightarrow>
          (case isdir (target_fs target) (join target_path name) f of
             Inl e \<Rightarrow> (Inl e, f)
           | Inr is_dir \<Rightarrow>
               if is_dir then
                 (if relative_path \<notin> set dirs then
                    (case removedir (target_fs target) (join target_path name) f of
                       Inl e \<Rightarrow> (Inl e, f)
                     | Inr f' \<Rightarrow> (Inr (), f'))
                  else descend (join target_path name) f)
               else
                 (if relative_path \<notin> set files then
                    (case removefile (target_fs target) (join target_path name) f of
                       Inl e \<Rightarrow> (Inl e, f)
                     | Inr f' \<Rightarrow> (Inr (), f'))
                  else (Inr (), f))))"
  by (simp add: sync_item_def Let_def bind_apply lift_apply query_apply call_apply ret_apply
           split: sum.splits)

lemma sync_directory_outcome:
  "sync_directory 0 target target_path dirs files f = (Inl RecursionError, f)"
  "sync_directory (Suc level) target target_path dirs files f =
     (case listdir (target_fs target) target_path f of
        Inl e \<Rightarrow> (Inl e, f)
      | Inr items \<Rightarrow>
          for_each items
            (sync_item (\<lambda>p. sync_directory level target p dirs files) target dirs files target_path) f)"
  by (simp_all add: raise_apply bind_apply query_apply split: sum.splits)

lemma for_each_Cons_apply_target:
  "for_each (name # names) step f =
     (case step name f of (Inl e, f') \<Rightarrow> (Inl e, f') | (Inr u, f') \<Rightarrow> for_each names step f')"
  by (simp add: bind_apply)

lemma handle_request_sync_outcome:
  "handle_request target (Sync dirs files) f =
     sync_directory (target_recursion_limit target) target (target_dir_path target) dirs files f"
  by simp

lemma unwatch_quietly_swallows: "fst (unwatch_quietly self watched s) = Inr ()"
  by (simp add: unwatch_quietly_def Let_def try_pass_apply)

text \<open>
  C9 (amended). The claim: every I/O failure other than the tolerated not-found
  conditions propagates out of \<^verbatim>\<open>handle_event\<close> and \<^verbatim>\<open>handle_request\<close>. The three
  \<^verbatim>\<open>try\<close> blocks end in a bare \<^verbatim>\<open>except: pass\<close>, which catches a denied permission
  as well as a missing path. What holds, for every file system and transport, is
  the exact outcome of each handler: outside the \<^verbatim>\<open>try\<close> blocks the first call
  that raises decides it. That is every call of \<^verbatim>\<open>relpath\<close>, \<^verbatim>\<open>isdir\<close>,
  \<^verbatim>\<open>readfile\<close>, \<^verbatim>\<open>watchdir\<close>, \<^verbatim>\<open>listdir\<close> and of the transport in
  \<^verbatim>\<open>handle_event\<close> and the walker it runs, and every call of \<^verbatim>\<open>exists\<close>,
  \<^verbatim>\<open>makedirs\<close>, \<^verbatim>\<open>readfile\<close>, \<^verbatim>\<open>writefile\<close>, \<^verbatim>\<open>isdir\<close>, \<^verbatim>\<open>removedir\<close>,
  \<^verbatim>\<open>removefile\<close>, \<^verbatim>\<open>listdir\<close> and \<^verbatim>\<open>relpath\<close> in the \<^verbatim>\<open>write\<close>, \<^verbatim>\<open>mkdir\<close>,
  \<^verbatim>\<open>remove\<close> and \<^verbatim>\<open>sync\<close> cases of \<^verbatim>\<open>handle_request\<close>. Inside the \<^verbatim>\<open>try\<close>
  blocks nothing propagates: \<^verbatim>\<open>unwatchdir\<close> in the \<^verbatim>\<open>Removed\<close> case, \<^verbatim>\<open>isdir\<close> and
  \<^verbatim>\<open>removedir\<close> before a write, \<^verbatim>\<open>isdir\<close> and \<^verbatim>\<open>removefile\<close> before a mkdir.
\<close>

theorem failures_propagate_except_from_try_blocks:
  fixes self :: "('f, 'r) ReplicatorSource" and target :: "'f ReplicatorTarget"
  shows
   "(send self request s = (case rpc_handle self request (rpc_state s) of
                             Inl e \<Rightarrow> (Inl e, s)
                           | Inr r \<Rightarrow> (Inr (), s\<lparr>rpc_state := r\<rparr>))) \<and>
    (handle_event self (FileSystemEvent FILE_MODIFIED event_path) s =
      (case relpath (cwd self) event_path (dir_path self) of
         Inl e \<Rightarrow> (Inl e, s)
       | Inr relative_path \<Rightarrow>
           (case readfile (fs self) event_path (fs_state s) of
              Inl e \<Rightarrow> (Inl e, s)
            | Inr content \<Rightarrow> send self (Write relative_path content) s))) \<and>
    (handle_event self (FileSystemEvent FILE_OR_SUBDIR_ADDED event_path) s =
      (case relpath (cwd self) event_path (dir_path self) of
         Inl e \<Rightarrow> (Inl e, s)
       | Inr relative_path \<Rightarrow>
           (case isdir (fs self) event_path (fs_state s) of
              Inl e \<Rightarrow> (Inl e, s)
            | Inr is_dir \<Rightarrow>
                if is_dir then
                  (case watchdir (fs self) event_path (fs_state s) of
                     Inl e \<Rightarrow> (Inl e, watch_dirs_update (set_add relative_path) s)
                   | Inr f1 \<Rightarrow>
                       (case replicate_directory (recursion_limit self) self event_path
                               ((watch_dirs_update (set_add relative_path) s)\<lparr>fs_state := f1\<rparr>) of
                          (Inl e, s') \<Rightarrow> (Inl e, s')
                        | (Inr u, s') \<Rightarrow>
                            (case send self (MkDir relative_path) s' of
                               (Inl e, s'') \<Rightarrow> (Inl e, s'')
                             | (Inr u, s'') \<Rightarrow>
                                 (Inr (), watch_files_update (set_add relative_path) s''))))
                else
                  (case readfile (fs self) event_path (fs_state s) of
                     Inl e \<Rightarrow> (Inl e, s)
                   | Inr content \<Rightarrow>
                       (case send self (Write relative_path content) s of
                          (Inl e, s') \<Rightarrow> (Inl e, s')
                        | (Inr u, s') \<Rightarrow>
                            (Inr (), watch_files_update (set_add relative_path) s')))))) \<and>
    (fst (handle_event self (FileSystemEvent FILE_OR_SUBDIR_REMOVED event_path) s) =
      (case relpath (cwd self) event_path (dir_path self) of
         Inl e \<Rightarrow> Inl e
       | Inr relative_path \<Rightarrow>
           (case rpc_handle self (Remove relative_path) (rpc_state s) of
              Inl e \<Rightarrow> Inl e
            | Inr r \<Rightarrow> Inr ()))) \<and>
    (fst (unwatch_quietly self watched s) = Inr ()) \<and>
    (replicate_directory 0 self current_path s = (Inl RecursionError, s)) \<and>
    (replicate_directory (Suc depth) self current_path s =
      (case listdir (fs self) current_path (fs_state s) of
         Inl e \<Rightarrow> (Inl e, s)
       | Inr items \<Rightarrow>
           for_each items (replicate_item (replicate_directory depth self) self current_path) s)) \<and>
    (replicate_item recurse self current_path item s =
      (case relpath (cwd self) (join current_path item) (dir_path self) of
         Inl e \<Rightarrow> (Inl e, s)
       | Inr relative_path \<Rightarrow>
           (case isdir (fs self) (join current_path item) (fs_state s) of
              Inl e \<Rightarrow> (Inl e, s)
            | Inr is_dir \<Rightarrow>
                if is_dir then
                  (case send self (MkDir relative_path) s of
                     (Inl e, s') \<Rightarrow> (Inl e, s')
                   | (Inr u, s') \<Rightarrow>
                       (case watchdir (fs self) (join current_path item) (fs_state s') of
                          Inl e \<Rightarrow> (Inl e, watch_dirs_update (set_add relative_path) s')
                        | Inr f1 \<Rightarrow>
                            recurse (join current_path item)
                              ((watch_dirs_update (set_add relative_path) s')\<lparr>fs_state := f1\<rparr>)))
                else
                  (case readfile (fs self) (join current_path item) (fs_state s) of
                     Inl e \<Rightarrow> (Inl e, s)
                   | Inr content \<Rightarrow>
                       (case send self (Write relative_path content) s of
                          (Inl e, s') \<Rightarrow> (Inl e, s')
                        | (Inr u, s') \<Rightarrow>
                            (Inr (), watch_files_update (set_add relative_path) s')))))) \<and>
    (for_each (item # items) body s =
      (case body item s of (Inl e, s') \<Rightarrow> (Inl e, s') | (Inr u, s') \<Rightarrow> for_each items body s')) \<and>
    (handle_request target (Write p c) f =
      (case exists (target_fs target) (dirname (join (target_dir_path target) p)) f of
         Inl e \<Rightarrow> (Inl e, f)
       | Inr dir_exists \<Rightarrow>
           (case (if dir_exists then Inr f
                  else makedirs (target_fs target) (dirname (join (target_dir_path target) p)) f) of
              Inl e \<Rightarrow> (Inl e, f)
            | Inr g1 \<Rightarrow>
                (case snd (remove_conflicting_dir target (join (target_dir_path target) p) g1) of g2 \<Rightarrow>
                   (case exists (target_fs target) (join (target_dir_path target) p) g2 of
                      Inl e \<Rightarrow> (Inl e, g2)
                    | Inr present \<Rightarrow>
                        if present then
                          (case readfile (target_fs target) (join (target_dir_path target) p) g2 of
                             Inl e \<Rightarrow> (Inl e, g2)
                           | Inr old \<Rightarrow>
                               if old \<noteq> c then
                                 (case writefile (target_fs target) (join (target_dir_path target) p) c g2 of
                                    Inl e \<Rightarrow> (Inl e, g2)
                                  | Inr g3 \<Rightarrow> (Inr (), g3))
                               else (Inr (), g2))
                        else
                          (case writefile (target_fs target) (join (target_dir_path target) p) c g2 of
                             Inl e \<Rightarrow> (Inl e, g2)
                           | Inr g3 \<Rightarrow> (Inr (), g3))))))) \<and>
    (handle_request target (MkDir p) f =
      (case snd (remove_conflicting_file target (join (target_dir_path target) p) f) of g \<Rightarrow>
         (case exists (target_fs target) (join (target_dir_path target) p) g of
            Inl e \<Rightarrow> (Inl e, g)
          | Inr present \<Rightarrow>
              if present then (Inr (), g)
              else (case makedirs (target_fs target) (join (target_dir_path target) p) g of
                      Inl e \<Rightarrow> (Inl e, g)
                    | Inr g' \<Rightarrow> (Inr (), g'))))) \<and>
    (handle_request target (Remove p) f =
      (case exists (target_fs target) (join (target_dir_path target) p) f of
         Inl e \<Rightarrow> (Inl e, f)
       | Inr present \<Rightarrow>
           if present then
             (case isdir (target_fs target) (join (target_dir_path target) p) f of
                Inl e \<Rightarrow> (Inl e, f)
              | Inr is_dir \<Rightarrow>
                  if is_dir then
                    (case removedir (target_fs target) (join (target_dir_path target) p) f of
                       Inl e \<Rightarrow> (Inl e, f)
                     | Inr f' \<Rightarrow> (Inr (), f'))
                  else
                    (case removefile (target_fs target) (join (target_dir_path target) p) f of
                       Inl e \<Rightarrow> (Inl e, f)
                     | Inr f' \<Rightarrow> (Inr (), f')))
           else (Inr (), f))) \<and>
    (handle_request target (Sync dirs files) f =
      sync_directory (target_recursion_limit target) target (target_dir_path target) dirs files f) \<and>
    (fst (remove_conflicting_dir target (join (target_dir_path target) p) f) = Inr ()) \<and>
    (fst (remove_conflicting_file target (join (target_dir_path target) p) f) = Inr ()) \<and>
    (sync_directory 0 target target_path dirs files f = (Inl RecursionError, f)) \<and>
    (sync_directory (Suc level) target target_path dirs files f =
      (case listdir (target_fs target) target_path f of
         Inl e \<Rightarrow> (Inl e, f)
       | Inr items \<Rightarrow>
           for_each items
             (sync_item (\<lambda>p. sync_directory level target p dirs files) target dirs files target_path) f)) \<and>
    (sync_item descend target dirs files target_path name f =
      (case relpath (target_cwd target) (join target_path name) (target_dir_path target) of
         Inl e \<Rightarrow> (Inl e, f)
       | Inr relative_path \<Rightarrow>
           (case isdir (target_fs target) (join target_path name) f of
              Inl e \<Rightarrow> (Inl e, f)
            | Inr is_dir \<Rightarrow>
                if is_dir then
                  (if relative_path \<notin> set dirs then
                     (case removedir (target_fs target) (join target_path name) f of
                        Inl e \<Rightarrow> (Inl e, f)
                      | Inr f' \<Rightarrow> (Inr (), f'))
                   else descend (join target_path name) f)
                else
                  (if relative_path \<notin> set files then
                     (case removefile (target_fs target) (join target_path name) f of
                        Inl e \<Rightarrow> (Inl e, f)
                      | Inr f' \<Rightarrow> (Inr (), f'))
                   else (Inr (), f))))) \<and>
    (for_each (name # names) step f =
      (case step name f of (Inl e, f') \<Rightarrow> (Inl e, f') | (Inr u, f') \<Rightarrow> for_each names step f'))"
  by (intro conjI)
     (rule send_apply,
      rule handle_event_modified_outcome,
      rule handle_event_added_outcome,
      rule removed_outcome,
      rule unwatch_quietly_swallows,
      rule replicate_directory_outcome(1),
      rule replicate_directory_outcome(2),
      rule replicate_item_outcome,
      rule for_each_Cons_apply,
      rule handle_request_write_outcome,
      rule handle_request_mkdir_outcome,
      rule handle_request_remove_outcome,
      rule handle_request_sync_outcome,
      rule try_blocks_swallow(1)[of target "join (target_dir_path target) p" f],
      rule try_blocks_swallow(2)[of target "join (target_dir_path target) p" f],
      rule sync_directory_outcome(1),
      rule sync_directory_outcome(2),
      rule sync_item_outcome,
      rule for_each_Cons_apply_target)

theorem failures_propagate_except_from_try_blocks_witness:
  "handle_event (example_source\<lparr>fs := broken DiskFull\<rparr>)
       (FileSystemEvent FILE_MODIFIED ''/s/d'') example_started
     = (Inl DiskFull, example_started) \<and>
   handle_event (example_source\<lparr>fs := broken DiskFull\<rparr>)
       (FileSystemEvent FILE_OR_SUBDIR_ADDED ''/s/d'') example_started
     = (Inl DiskFull, example_started) \<and>
   fst (handle_event (example_source\<lparr>fs := broken DiskFull\<rparr>)
       (FileSystemEvent FILE_OR_SUBDIR_REMOVED ''/s/d'') example_started) = Inr () \<and>
   handle_event (example_source\<lparr>rpc_handle := \<lambda>request r. Inl DiskFull\<rparr>)
       (FileSystemEvent FILE_MODIFIED ''/s/d/f'') example_started
     = (Inl DiskFull, example_started) \<and>
   handle_event (example_source\<lparr>rpc_handle := \<lambda>request r. Inl DiskFull\<rparr>)
       (FileSystemEvent FILE_OR_SUBDIR_ADDED ''/s/d/f'') example_started
     = (Inl DiskFull, example_started) \<and>
   handle_request (example_target\<lparr>target_fs := broken DiskFull\<rparr>) (Write ''a'' ''x'')
       example_target_fs = (Inl DiskFull, example_target_fs) \<and>
   handle_request (example_target\<lparr>target_fs := (mem True)\<lparr>writefile := \<lambda>p c f. Inl DiskFull\<rparr>\<rparr>)
       (Write ''a/keep.txt'' ''new'') example_target_fs = (Inl DiskFull, example_target_fs) \<and>
   handle_request (example_target\<lparr>target_fs := denying\<rparr>) (Remove ''x'')
       example_target_fs = (Inl PermissionDenied, example_target_fs) \<and>
   handle_request (example_target\<lparr>target_fs := denying\<rparr>) (Sync [] [])
       example_target_fs = (Inl PermissionDenied, example_target_fs) \<and>
   handle_request example_target (MkDir ''a/keep.txt/y'') example_target_fs
     = (Inl NotADirectory, example_target_fs)"
proof -
  let ?S = "example_source\<lparr>fs := broken DiskFull\<rparr>"
  let ?R = "example_source\<lparr>rpc_handle := \<lambda>request r. Inl DiskFull\<rparr>"
  let ?T = "example_target\<lparr>target_fs := broken DiskFull\<rparr>"
  let ?W = "example_target\<lparr>target_fs := (mem True)\<lparr>writefile := \<lambda>p c f. Inl DiskFull\<rparr>\<rparr>"
  let ?D = "example_target\<lparr>target_fs := denying\<rparr>"
  note A = failures_propagate_except_from_try_blocks[where self = ?S and s = example_started
      and event_path = "''/s/d''" and target = ?T and f = example_target_fs and p = "''a''"
      and c = "''x''"]
  note B = failures_propagate_except_from_try_blocks[where self = ?R and s = example_started
      and event_path = "''/s/d/f''" and target = ?W and f = example_target_fs
      and p = "''a/keep.txt''" and c = "''new''"]
  note C = failures_propagate_except_from_try_blocks[where self = ?S and s = example_started
      and event_path = "''/s/d''" and target = ?D and f = example_target_fs and p = "''x''"
      and dirs = "[]" and files = "[]"]
  note D = failures_propagate_except_from_try_blocks[where self = ?S and s = example_started
      and event_path = "''/s/d''" and target = example_target and f = example_target_fs
      and p = "''a/keep.txt/y''"]
  have a2: "handle_event ?S (FileSystemEvent FILE_MODIFIED ''/s/d'') example_started
     = (Inl DiskFull, example_started)"
    by (subst A[THEN conjunct2, THEN conjunct1]) code_simp
  have a3: "handle_event ?S (FileSystemEvent FILE_OR_SUBDIR_ADDED ''/s/d'') example_started
     = (Inl DiskFull, example_started)"
    by (subst A[THEN conjunct2, THEN conjunct2, THEN conjunct1]) code_simp
  have a4: "fst (handle_event ?S (FileSystemEvent FILE_OR_SUBDIR_REMOVED ''/s/d'') example_started)
     = Inr ()"
    by (subst A[THEN conjunct2, THEN conjunct2, THEN conjunct2, THEN conjunct1]) code_simp
  have b2: "handle_event ?R (FileSystemEvent FILE_MODIFIED ''/s/d/f'') example_started
     = (Inl DiskFull, example_started)"
    by (subst B[THEN conjunct2, THEN conjunct1]) code_simp
  have b3: "handle_event ?R (FileSystemEvent FILE_OR_SUBDIR_ADDED ''/s/d/f'') example_started
     = (Inl DiskFull, example_started)"
    by (subst B[THEN conjunct2, THEN conjunct2, THEN conjunct1]) code_simp
  note A10 = A[THEN conjunct2, THEN conjunct2, THEN conjunct2, THEN conjunct2, THEN conjunct2,
      THEN conjunct2, THEN conjunct2, THEN conjunct2, THEN conjunct2, THEN conjunct1]
  note B10 = B[THEN conjunct2, THEN conjunct2, THEN conjunct2, THEN conjunct2, THEN conjunct2,
      THEN conjunct2, THEN conjunct2, THEN conjunct2, THEN conjunct2, THEN conjunct1]
  note C12 = C[THEN conjunct2, THEN conjunct2, THEN conjunct2, THEN conjunct2, THEN conjunct2,
      THEN conjunct2, THEN conjunct2, THEN conjunct2, THEN conjunct2, THEN conjunct2,
      THEN conjunct2, THEN conjunct1]
  note C13 = C[THEN conjunct2, THEN conjunct2, THEN conjunct2, THEN conjunct2, THEN conjunct2,
      THEN conjunct2, THEN conjunct2, THEN conjunct2, THEN conjunct2, THEN conjunct2,
      THEN conjunct2, THEN conjunct2, THEN conjunct1]
  note D11 = D[THEN conjunct2, THEN conjunct2, THEN conjunct2, THEN conjunct2, THEN conjunct2,
      THEN conjunct2, THEN conjunct2, THEN conjunct2, THEN conjunct2, THEN conjunct2,
      THEN conjunct1]
  have a10: "handle_request ?T (Write ''a'' ''x'') example_target_fs
     = (Inl DiskFull, example_target_fs)"
    by (subst A10) code_simp
  have b10: "handle_request ?W (Write ''a/keep.txt'' ''new'') example_target_fs
     = (Inl DiskFull, example_target_fs)"
    by (subst B10) code_simp
  have c12: "handle_request ?D (Remove ''x'') example_target_fs
     = (Inl PermissionDenied, example_target_fs)"
    by (subst C12) code_simp
  have c13: "handle_request ?D (Sync [] []) example_target_fs
     = (Inl PermissionDenied, example_target_fs)"
    by (subst C13) code_simp
  have d11: "handle_request example_target (MkDir ''a/keep.txt/y'') example_target_fs
     = (Inl NotADirectory, example_target_fs)"
    by (subst D11) code_simp
  from a2 a3 a4 b2 b3 a10 b10 c12 c13 d11 show ?thesis by blast
qed

theorem failures_propagate_counterexample:
  "isdir denying ''/t/a/keep.txt'' example_target_fs = Inr False \<and>
   removefile denying ''/t/a/keep.txt'' example_target_fs = Inl PermissionDenied \<and>
   handle_request (example_target\<lparr>target_fs := denying\<rparr>) (MkDir ''a/keep.txt'') example_target_fs
     = (Inr (), example_target_fs) \<and>
   unwatchdir denying ''/s/d'' (fs_state example_started) = Inl PermissionDenied \<and>
   fst (handle_event (example_source\<lparr>fs := denying\<rparr>)
          (FileSystemEvent FILE_OR_SUBDIR_REMOVED ''/s/d'') example_started) = Inr ()"
  by code_simp

section \<open>Absolute paths of valid names\<close>


lemma split_sep_sep_join:
  assumes "ns \<noteq> []" and "list_all valid_name ns"
  shows "split_sep (sep_join ns) = ns"
  using assms
proof (induction ns rule: sep_join.induct)
  case 1
  then show ?case by simp
next
  case (2 w)
  then show ?case by (simp add: split_sep_plain valid_name_def)
next
  case (3 w v ws)
  then have "split_sep (sep_join (v # ws)) = v # ws" by simp
  moreover have "split_sep w = [w]" using 3 by (simp add: split_sep_plain valid_name_def)
  ultimately show ?case by (simp add: split_sep_append_sep)
qed

lemma split_sep_abs_path_of:
  assumes "list_all valid_name ns"
  shows "split_sep (abs_path_of ns) = [] # (if ns = [] then [[]] else ns)"
  using assms by (simp add: abs_path_of_def split_sep_sep_join)

lemma fs_path_abs_path_of:
  assumes "list_all valid_name ns"
  shows "fs_path (abs_path_of ns) = ns"
proof -
  have "filter (\<lambda>x. x \<noteq> []) ns = ns"
    using assms by (induction ns) (auto simp: valid_name_def)
  then show ?thesis using assms by (simp add: fs_path_def split_sep_abs_path_of)
qed

lemma sep_join_snoc:
  "sep_join (ns @ [n]) = (if ns = [] then n else sep_join ns @ CHR ''/'' # n)"
  by (induction ns rule: sep_join.induct) auto

lemma sep_join_last:
  assumes "ns \<noteq> []" and "list_all valid_name ns"
  shows "sep_join ns \<noteq> [] \<and> last (sep_join ns) \<noteq> CHR ''/''"
  using assms
proof (induction ns rule: sep_join.induct)
  case 1
  then show ?case by simp
next
  case (2 w)
  then have w: "w \<noteq> []" "CHR ''/'' \<notin> set w" by (simp_all add: valid_name_def)
  have lw: "last w \<in> set w" using w(1) by (rule last_in_set)
  have "last w \<noteq> CHR ''/''"
  proof
    assume "last w = CHR ''/''"
    with lw have "CHR ''/'' \<in> set w" by simp
    with w(2) show False by simp
  qed
  with w(1) show ?case by simp
next
  case (3 w v ws)
  then show ?case by auto
qed

lemma join_abs_path_of:
  assumes "list_all valid_name ns" and "valid_name n"
  shows "join (abs_path_of ns) n = abs_path_of (ns @ [n])"
proof -
  have n: "\<not> prefix ''/'' n" using assms(2) by (cases n) (auto simp: valid_name_def)
  show ?thesis
  proof (cases "ns = []")
    case True
    with n show ?thesis by (simp add: join_def abs_path_of_def)
  next
    case False
    with sep_join_last[OF False assms(1)] n show ?thesis
      by (simp add: join_def abs_path_of_def sep_join_snoc)
  qed
qed

lemma foldl_norm_step_valid:
  assumes "list_all valid_name ns"
  shows "foldl (norm_step b) acc ns = acc @ ns"
  using assms
  by (induction ns arbitrary: acc) (auto simp: norm_step_def valid_name_def)

lemma normpath_abs_path_of:
  assumes "list_all valid_name ns"
  shows "normpath (abs_path_of ns) = abs_path_of ns"
proof (cases ns)
  case Nil
  then show ?thesis by (simp add: normpath_def abs_path_of_def norm_step_def Let_def)
next
  case (Cons n ns')
  then have vn: "valid_name n" using assms by simp
  then obtain c cs where n: "n = c # cs" "c \<noteq> CHR ''/''" by (cases n) (auto simp: valid_name_def)
  have sj: "sep_join (n # ns') = c # tl (sep_join (n # ns'))"
    using n by (cases ns') auto
  have p1: "prefix ''/'' (abs_path_of ns)" by (simp add: abs_path_of_def)
  have p2: "\<not> prefix ''//'' (abs_path_of ns)"
    using n Cons by (subst abs_path_of_def, subst Cons, subst sj) simp
  have sp: "split_sep (abs_path_of ns) = [] # ns"
    using split_sep_abs_path_of[OF assms] Cons by simp
  have "foldl (norm_step True) [] ([] # ns) = ns"
    using foldl_norm_step_valid[OF assms, of True "[]"] by (simp add: norm_step_def)
  then show ?thesis
    using p1 p2 sp by (simp add: normpath_def Let_def abs_path_of_def)
qed

lemma foldl_join_valid:
  assumes "list_all valid_name ns" and "list_all valid_name (m # ms)"
  shows "foldl join (sep_join (m # ms)) ns = sep_join (m # ms @ ns)"
  using assms
proof (induction ns arbitrary: ms)
  case Nil
  then show ?case by simp
next
  case (Cons n ns)
  then have vn: "valid_name n" by simp
  have np: "\<not> prefix ''/'' n" using vn by (cases n) (auto simp: valid_name_def)
  have "join (sep_join (m # ms)) n = sep_join ((m # ms) @ [n])"
    using sep_join_last[OF _ Cons.prems(2)] np
    by (simp only: sep_join_snoc join_def) simp
  then have "join (sep_join (m # ms)) n = sep_join (m # (ms @ [n]))" by simp
  moreover have "list_all valid_name (m # (ms @ [n]))" using Cons.prems by simp
  moreover have "list_all valid_name ns" using Cons.prems by simp
  ultimately show ?case using Cons.IH[of "ms @ [n]"] by simp
qed

lemma longest_common_prefix_append: "longest_common_prefix xs (xs @ ys) = xs"
  by (induction xs) auto

lemma relpath_abs_path_of:
  assumes "list_all valid_name rs" and "list_all valid_name ns" and "ns \<noteq> []"
  shows "relpath wd (abs_path_of (rs @ ns)) (abs_path_of rs) = Inr (sep_join ns)"
proof -
  have v: "list_all valid_name (rs @ ns)" using assms by simp
  have pa: "prefix ''/'' (abs_path_of xs)" for xs by (simp add: abs_path_of_def)
  have a1: "abspath wd (abs_path_of rs) = abs_path_of rs"
    by (simp only: abspath_def pa if_True normpath_abs_path_of[OF assms(1)])
  have a2: "abspath wd (abs_path_of (rs @ ns)) = abs_path_of (rs @ ns)"
    by (simp only: abspath_def pa if_True normpath_abs_path_of[OF v])
  have l1: "filter (\<lambda>x. x \<noteq> []) (split_sep (abs_path_of rs)) = rs"
    using fs_path_abs_path_of[OF assms(1)] by (simp add: fs_path_def)
  have l2: "filter (\<lambda>x. x \<noteq> []) (split_sep (abs_path_of (rs @ ns))) = rs @ ns"
    using fs_path_abs_path_of[OF v] by (simp add: fs_path_def)
  obtain n ns' where ns: "ns = n # ns'" using assms(3) by (cases ns) auto
  have "foldl join n ns' = sep_join (n # [] @ ns')"
    using foldl_join_valid[of ns' n "[]"] assms(2) ns by simp
  then have fj: "foldl join n ns' = sep_join ns" using ns by simp
  have ne: "abs_path_of (rs @ ns) \<noteq> []" by (simp add: abs_path_of_def)
  show ?thesis
    unfolding relpath_def a1 a2 l1 l2 Let_def longest_common_prefix_append
    using ne fj ns by simp
qed

section \<open>Reconciliation on the in-memory file system\<close>

lemma covered_from_cong:
  assumes "\<And>q'. entry t1 (root @ d @ q') = entry t2 (root @ d @ q')"
  shows "covered_from t1 root dirs files d q = covered_from t2 root dirs files d q"
  using assms
proof (induction q arbitrary: d)
  case Nil
  then show ?case by simp
next
  case (Cons x q)
  have m: "matched t1 root dirs files (d @ [x]) = matched t2 root dirs files (d @ [x])"
    using Cons.prems[of "[x]"] by (simp add: matched_def)
  have "\<And>q'. entry t1 (root @ (d @ [x]) @ q') = entry t2 (root @ (d @ [x]) @ q')"
    using Cons.prems[of "x # q'" for q'] by simp
  from Cons.IH[OF this] m show ?case by simp
qed

lemma pruned_insert:
  "pruned t root dirs files d (insert x X) p =
     (if \<exists>q. p = root @ d @ x # q \<and> \<not> covered_from t root dirs files d (x # q) then None
      else pruned t root dirs files d X p)"
  by (auto simp: pruned_def)

lemma pruned_empty: "pruned t root dirs files d {} = entry t"
  by (simp add: pruned_def)

lemma prefix_snoc_iff: "prefix (a @ [x]) p \<longleftrightarrow> (\<exists>q. p = a @ x # q)"
  by (auto simp: prefix_def)

lemma sync_item_mem:
  assumes fs: "target_fs self = mem strict"
    and root: "target_dir_path self = abs_path_of rs" "list_all valid_name rs"
    and d: "list_all valid_name d" and x: "valid_name x"
    and k: "entry (tree h) (rs @ d @ [x]) = Some k"
  shows "sync_item recurse self dirs files (abs_path_of (rs @ d)) x h =
     (case k of
        KDir \<Rightarrow> (if sep_join (d @ [x]) \<notin> set dirs
                 then call (mem_removedir (abs_path_of (rs @ d @ [x]))) h
                 else recurse (abs_path_of (rs @ d @ [x])) h)
      | KFile c \<Rightarrow> (if sep_join (d @ [x]) \<notin> set files
                    then call (mem_removefile (abs_path_of (rs @ d @ [x]))) h
                    else (Inr (), h)))"
proof -
  have v: "list_all valid_name (rs @ d)" "list_all valid_name (d @ [x])"
    "list_all valid_name (rs @ d @ [x])" using root d x by simp_all
  have j: "join (abs_path_of (rs @ d)) x = abs_path_of (rs @ d @ [x])"
    using join_abs_path_of[OF v(1) x] by simp
  have r: "relpath (target_cwd self) (abs_path_of (rs @ d @ [x])) (abs_path_of rs)
           = Inr (sep_join (d @ [x]))"
    using relpath_abs_path_of[OF root(2) v(2), of "target_cwd self"] by simp
  have p: "fs_path (abs_path_of (rs @ d @ [x])) = rs @ d @ [x]"
    by (rule fs_path_abs_path_of[OF v(3)])
  show ?thesis using k
    by (cases k)
       (simp_all add: sync_item_def Let_def j r root(1) bind_apply lift_apply query_apply ret_apply
          mem_simps fs mem_isdir_entry p)
qed

lemma sync_step:
  assumes fs: "target_fs self = mem strict"
    and root: "target_dir_path self = abs_path_of rs" "list_all valid_name rs"
    and d: "list_all valid_name d" and x: "valid_name x"
    and rec: "\<And>h. entry (tree g) (rs @ d @ [x]) = Some KDir \<Longrightarrow>
               (\<And>q. entry (tree h) (rs @ d @ x # q) = entry (tree g) (rs @ d @ x # q)) \<Longrightarrow>
               \<exists>h'. recurse (abs_path_of (rs @ d @ [x])) h = (Inr (), h') \<and>
                    entry (tree h') = pruned (tree h) rs dirs files (d @ [x]) UNIV"
    and child: "entry (tree g) (rs @ d @ [x]) \<noteq> None"
    and xX: "x \<notin> X"
    and h: "entry (tree h) = pruned (tree g) rs dirs files d X"
  shows "\<exists>h1. sync_item recurse self dirs files (abs_path_of (rs @ d)) x h = (Inr (), h1) \<and>
              entry (tree h1) = pruned (tree g) rs dirs files d (insert x X)"
proof -
  let ?P = "pruned (tree g) rs dirs files d"
  have same: "entry (tree h) (rs @ d @ x # q) = entry (tree g) (rs @ d @ x # q)" for q
    using xX by (auto simp: h pruned_def)
  from child obtain k where k: "entry (tree g) (rs @ d @ [x]) = Some k" by auto
  have hk: "entry (tree h) (rs @ d @ [x]) = Some k" using same[of "[]"] k by simp
  note si = sync_item_mem[OF fs root d x hk, of recurse dirs files]
  have v: "list_all valid_name (rs @ d @ [x])" using root d x by simp
  have p: "fs_path (abs_path_of (rs @ d @ [x])) = rs @ d @ [x]"
    by (rule fs_path_abs_path_of[OF v])
  have removed: "(\<lambda>p. if prefix (rs @ d @ [x]) p then None else entry (tree h) p) = ?P (insert x X)"
    if nm: "\<not> matched (tree g) rs dirs files (d @ [x])"
  proof
    fix p
    have "\<not> covered_from (tree g) rs dirs files d (x # q)" for q using nm by simp
    then show "(if prefix (rs @ d @ [x]) p then None else entry (tree h) p) = ?P (insert x X) p"
      using prefix_snoc_iff[of "rs @ d" x p] by (auto simp: pruned_insert h)
  qed
  show ?thesis
  proof (cases k)
    case KDir
    show ?thesis
    proof (cases "sep_join (d @ [x]) \<in> set dirs")
      case False
      then have nm: "\<not> matched (tree g) rs dirs files (d @ [x])"
        using k KDir by (simp add: matched_def)
      from mem_removedir_ok[of h "abs_path_of (rs @ d @ [x])"] hk KDir p
      obtain h1 where h1: "mem_removedir (abs_path_of (rs @ d @ [x])) h = Inr h1" by auto
      have "entry (tree h1) = ?P (insert x X)"
        using mem_removedir_effect(1)[OF h1] removed[OF nm] by (simp add: p)
      then show ?thesis using si KDir False h1 by (simp add: call_apply)
    next
      case True
      then have m: "matched (tree g) rs dirs files (d @ [x])"
        using k KDir by (simp add: matched_def)
      from rec[of h] k KDir same obtain h1 where
        h1: "recurse (abs_path_of (rs @ d @ [x])) h = (Inr (), h1)"
        and e1: "entry (tree h1) = pruned (tree h) rs dirs files (d @ [x]) UNIV" by auto
      have cf: "covered_from (tree h) rs dirs files (d @ [x]) q
                = covered_from (tree g) rs dirs files (d @ [x]) q" for q
        by (rule covered_from_cong) (use same in simp)
      have "entry (tree h1) = ?P (insert x X)"
      proof
        fix p
        show "entry (tree h1) p = ?P (insert x X) p"
        proof (cases "\<exists>q. p = rs @ d @ x # q")
          case True
          then obtain q where q: "p = rs @ d @ x # q" by blast
          show ?thesis
          proof (cases q)
            case Nil
            then show ?thesis using q m by (auto simp: e1 pruned_def h)
          next
            case (Cons y q')
            have "pruned (tree h) rs dirs files (d @ [x]) UNIV p =
                  (if \<not> covered_from (tree h) rs dirs files (d @ [x]) (y # q') then None
                   else entry (tree h) p)"
              unfolding pruned_def q Cons by auto
            then show ?thesis using q Cons m cf[of "y # q'"]
              by (auto simp: e1 pruned_insert h)
          qed
        next
          case False
          then have "\<not> (\<exists>y q. p = rs @ (d @ [x]) @ y # q)" by auto
          then have "pruned (tree h) rs dirs files (d @ [x]) UNIV p = entry (tree h) p"
            by (auto simp: pruned_def)
          then show ?thesis using False by (auto simp: e1 pruned_insert h)
        qed
      qed
      then show ?thesis using si KDir True h1 by simp
    qed
  next
    case (KFile c)
    show ?thesis
    proof (cases "sep_join (d @ [x]) \<in> set files")
      case False
      then have nm: "\<not> matched (tree g) rs dirs files (d @ [x])"
        using k KFile by (simp add: matched_def)
      from mem_removefile_ok[of h "abs_path_of (rs @ d @ [x])" c] hk KFile p
      obtain h1 where h1: "mem_removefile (abs_path_of (rs @ d @ [x])) h = Inr h1" by auto
      have "entry (tree h1) = ?P (insert x X)"
        using mem_removefile_effect(1)[OF h1] removed[OF nm] by (simp add: p)
      then show ?thesis using si KFile False h1 by (simp add: call_apply)
    next
      case True
      then have m: "matched (tree g) rs dirs files (d @ [x])"
        using k KFile by (simp add: matched_def)
      have "entry (tree h) = ?P (insert x X)"
      proof
        fix p
        show "entry (tree h) p = ?P (insert x X) p"
        proof (cases "\<exists>q. p = rs @ d @ x # q \<and> \<not> covered_from (tree g) rs dirs files d (x # q)")
          case True
          then obtain q where q: "p = rs @ d @ x # q"
            and nc: "\<not> covered_from (tree g) rs dirs files d (x # q)" by blast
          from nc m have "q \<noteq> []" by auto
          have "entry (tree g) p = None"
          proof (rule ccontr)
            assume "entry (tree g) p \<noteq> None"
            then have "entry (tree g) ((rs @ d @ [x]) @ q) \<noteq> None" using q by simp
            from entry_below_is_dir[OF this \<open>q \<noteq> []\<close>] k KFile show False by simp
          qed
          then have "entry (tree h) p = None" using same[of q] q by simp
          moreover have "?P (insert x X) p = None"
            by (simp only: pruned_insert True if_True)
          ultimately show ?thesis by simp
        next
          case False
          have "?P (insert x X) p = ?P X p"
            by (simp only: pruned_insert False if_False)
          then show ?thesis by (simp add: h)
        qed
      qed
      then show ?thesis using si KFile True by simp
    qed
  qed
qed

lemma sync_loop:
  fixes body :: "'a \<Rightarrow> (unit, memfs) prog" and h :: memfs
  assumes step: "\<And>x X h. x \<in> set xs \<Longrightarrow> x \<notin> X \<Longrightarrow> entry (tree h) = P X \<Longrightarrow>
                   \<exists>h1. body x h = (Inr (), h1) \<and> entry (tree h1) = P (insert x X)"
    and "distinct xs" and "X \<inter> set xs = {}" and "entry (tree h) = P X"
  shows "\<exists>h'. for_each xs body h = (Inr (), h') \<and> entry (tree h') = P (X \<union> set xs)"
  using assms
proof (induction xs arbitrary: X h)
  case Nil
  then show ?case by (simp add: ret_apply)
next
  case (Cons x xs)
  have "x \<notin> X" using Cons.prems(3) by auto
  from Cons.prems(1)[OF _ this Cons.prems(4)] obtain h1 where
    h1: "body x h = (Inr (), h1)" "entry (tree h1) = P (insert x X)" by auto
  have "\<exists>h'. for_each xs body h1 = (Inr (), h') \<and> entry (tree h') = P (insert x X \<union> set xs)"
  proof (rule Cons.IH)
    show "distinct xs" using Cons.prems(2) by simp
    show "insert x X \<inter> set xs = {}" using Cons.prems(2,3) by auto
    show "entry (tree h1) = P (insert x X)" by (rule h1(2))
    fix y Y and k :: memfs assume "y \<in> set xs" "y \<notin> Y" "entry (tree k) = P Y"
    then show "\<exists>h1. body y k = (Inr (), h1) \<and> entry (tree h1) = P (insert y Y)"
      using Cons.prems(1)[of y Y k] by simp
  qed
  then show ?case using h1(1) by (simp add: bind_apply)
qed

lemma sync_directory_mem:
  fixes g :: memfs
  assumes fs: "target_fs self = mem strict"
    and root: "target_dir_path self = abs_path_of rs" "list_all valid_name rs"
    and d: "list_all valid_name d"
    and isd: "entry (tree g) (rs @ d) = Some KDir"
    and below: "\<And>q. entry (tree g) (rs @ d @ q) \<noteq> None \<Longrightarrow> list_all valid_name q \<and> length q < n"
  shows "\<exists>g'. sync_directory n self (abs_path_of (rs @ d)) dirs files g = (Inr (), g') \<and>
              entry (tree g') = pruned (tree g) rs dirs files d UNIV"
  using d isd below
proof (induction n arbitrary: d g)
  case 0
  from 0(3)[of "[]"] 0(2) show ?case by simp
next
  case (Suc m)
  let ?cur = "abs_path_of (rs @ d)"
  let ?P = "pruned (tree g) rs dirs files d"
  have v: "list_all valid_name (rs @ d)" using root(2) Suc.prems(1) by simp
  have p: "fs_path ?cur = rs @ d" by (rule fs_path_abs_path_of[OF v])
  obtain names where names: "mem_listdir ?cur g = Inr names"
    using Suc.prems(2) p by (auto simp: mem_listdir_def entry_KDir)
  note ls = mem_listdir_effect[OF names, unfolded p]
  have step: "\<exists>h1. sync_item (\<lambda>p. sync_directory m self p dirs files) self dirs files ?cur x h
                  = (Inr (), h1) \<and> entry (tree h1) = ?P (insert x X)"
    if "x \<in> set names" "x \<notin> X" "entry (tree h) = ?P X" for x X and h :: memfs
  proof (rule sync_step[OF fs root Suc.prems(1)])
    from that(1) ls(1) show child: "entry (tree g) (rs @ d @ [x]) \<noteq> None" by simp
    from Suc.prems(3)[OF child] show "valid_name x" by simp
    show "x \<notin> X" by (rule that(2))
    show "entry (tree h) = ?P X" by (rule that(3))
    fix k :: memfs
    assume kd: "entry (tree g) (rs @ d @ [x]) = Some KDir"
      and same: "\<And>q. entry (tree k) (rs @ d @ x # q) = entry (tree g) (rs @ d @ x # q)"
    have vx: "valid_name x" using Suc.prems(3)[OF child] by simp
    have "\<exists>g'. sync_directory m self (abs_path_of (rs @ (d @ [x]))) dirs files k = (Inr (), g') \<and>
              entry (tree g') = pruned (tree k) rs dirs files (d @ [x]) UNIV"
    proof (rule Suc.IH)
      show "list_all valid_name (d @ [x])" using Suc.prems(1) vx by simp
      show "entry (tree k) (rs @ d @ [x]) = Some KDir" using same[of "[]"] kd by simp
      fix q assume "entry (tree k) (rs @ (d @ [x]) @ q) \<noteq> None"
      then have "entry (tree g) (rs @ d @ (x # q)) \<noteq> None" using same[of q] by simp
      from Suc.prems(3)[OF this] show "list_all valid_name q \<and> length q < m" by simp
    qed
    then show "\<exists>h'. sync_directory m self (abs_path_of (rs @ d @ [x])) dirs files k = (Inr (), h') \<and>
              entry (tree h') = pruned (tree k) rs dirs files (d @ [x]) UNIV" by simp
  qed
  have "\<exists>g'. for_each names
          (sync_item (\<lambda>p. sync_directory m self p dirs files) self dirs files ?cur) g = (Inr (), g') \<and>
        entry (tree g') = ?P ({} \<union> set names)"
  proof (rule sync_loop[where P = ?P])
    show "distinct names" by (rule ls(2))
    show "{} \<inter> set names = {}" by simp
    show "entry (tree g) = ?P {}" by (simp add: pruned_empty)
    fix x X and h :: memfs assume "x \<in> set names" "x \<notin> X" "entry (tree h) = ?P X"
    then show "\<exists>h1. sync_item (\<lambda>p. sync_directory m self p dirs files) self dirs files ?cur x h
                  = (Inr (), h1) \<and> entry (tree h1) = ?P (insert x X)" by (rule step)
  qed
  then obtain g' where g': "for_each names
          (sync_item (\<lambda>p. sync_directory m self p dirs files) self dirs files ?cur) g = (Inr (), g')"
    and e: "entry (tree g') = ?P (set names)" by auto
  have "?P (set names) = ?P UNIV"
  proof
    fix r
    show "?P (set names) r = ?P UNIV r"
    proof (cases "\<exists>x q. r = rs @ d @ x # q \<and> \<not> covered_from (tree g) rs dirs files d (x # q)")
      case False
      then show ?thesis by (auto simp: pruned_def)
    next
      case True
      then obtain x q where r: "r = rs @ d @ x # q"
        and nc: "\<not> covered_from (tree g) rs dirs files d (x # q)" by blast
      have u: "?P UNIV r = None" using r nc by (auto simp: pruned_def)
      show ?thesis
      proof (cases "x \<in> set names")
        case True
        then have "?P (set names) r = None" using r nc by (auto simp: pruned_def)
        with u show ?thesis by simp
      next
        case False
        then have nx: "entry (tree g) (rs @ d @ [x]) = None" using ls(1) by simp
        have "entry (tree g) r = None"
        proof (rule ccontr)
          assume "entry (tree g) r \<noteq> None"
          then have "entry (tree g) ((rs @ d @ [x]) @ q) \<noteq> None" using r by simp
          from entry_prefix_exists[OF this, of "rs @ d @ [x]"] nx show False by simp
        qed
        then have "?P (set names) r = None" by (simp add: pruned_def)
        with u show ?thesis by simp
      qed
    qed
  qed
  with e have "entry (tree g') = ?P UNIV" by simp
  moreover have "sync_directory (Suc m) self ?cur dirs files g = (Inr (), g')"
    using names g' by (simp add: bind_apply query_apply mem_simps fs)
  ultimately show ?case by blast
qed

lemma fold_max_ge: "a \<in> set xs \<or> a \<le> b \<Longrightarrow> a \<le> fold max xs (b::nat)"
proof (induction xs arbitrary: b)
  case Nil
  then show ?case by simp
next
  case (Cons x xs)
  from Cons.prems have "a \<in> set xs \<or> a \<le> max x b" by auto
  from Cons.IH[OF this] show ?case by simp
qed

lemma lookup_wf_height:
  "lookup n q = Some m \<Longrightarrow> wf_node n \<Longrightarrow> list_all valid_name q \<and> length q \<le> height n"
proof (induction n q rule: lookup.induct)
  case (1 n)
  then show ?case by simp
next
  case (2 c x xs)
  then show ?case by simp
next
  case (3 es x xs)
  from "3.prems"(1) obtain c where c: "map_of es x = Some c" and l: "lookup c xs = Some m"
    by (auto split: option.splits)
  from c have mem: "(x, c) \<in> set es" by (rule map_of_SomeD)
  with "3.prems"(2) have vx: "valid_name x" and wc: "wf_node c" by auto
  from "3.IH"[OF c l wc] have ih: "list_all valid_name xs" "length xs \<le> height c" by simp_all
  have "height c \<in> set (map (\<lambda>(n, c). height c) es)" using mem by force
  then have "height c \<le> fold max (map (\<lambda>(n, c). height c) es) 0"
    using fold_max_ge[of "height c" "map (\<lambda>(n, c). height c) es" 0] by simp
  with ih vx show ?case by simp
qed

text \<open>
  C6 (amended). The claim: a \<^verbatim>\<open>sync\<close> request deletes exactly the target entries not
  covered by the sets, never creates an entry, and every entry whose relative path
  is in the advertised sets remains. The last part fails: the walk does not descend
  into a directory whose path is not in \<open>dirs\<close>, so an advertised file below it goes
  with it. What holds: for every file system, the step for one entry removes a
  directory whose relative path is not in \<open>dirs\<close> with one \<^verbatim>\<open>removedir\<close> and without
  descending, descends into a directory whose path is in \<open>dirs\<close>, removes a file
  whose path is not in \<open>files\<close> with one \<^verbatim>\<open>removefile\<close> and leaves a file whose path
  is in \<open>files\<close>. On the in-memory file system, for a root directory whose tree has
  valid names and a height below the recursion limit, the request returns, and
  afterwards the entries are those of before without the entries below the root
  that are not covered: an entry is covered when it and each of its ancestors below
  the root has its relative path in the set of its kind, \<open>dirs\<close> for a directory and
  \<open>files\<close> for a file. No entry is created, and nothing outside the root changes.
\<close>

theorem sync_deletes_exactly_the_uncovered:
  fixes f :: memfs
  assumes fs: "target_fs self = mem strict"
    and root: "target_dir_path self = abs_path_of rs" "list_all valid_name rs"
    and isd: "lookup (tree f) rs = Some (Dir es)"
    and wf: "wf_node (Dir es)"
    and h: "height (Dir es) < target_recursion_limit self"
  shows "(\<forall>descend target_path name g.
           sync_item descend self dirs files target_path name g =
             (case relpath (target_cwd self) (join target_path name) (target_dir_path self) of
                Inl e \<Rightarrow> (Inl e, g)
              | Inr relative_path \<Rightarrow>
                  (case isdir (target_fs self) (join target_path name) g of
                     Inl e \<Rightarrow> (Inl e, g)
                   | Inr is_dir \<Rightarrow>
                       if is_dir then
                         (if relative_path \<notin> set dirs then
                            (case removedir (target_fs self) (join target_path name) g of
                               Inl e \<Rightarrow> (Inl e, g)
                             | Inr g' \<Rightarrow> (Inr (), g'))
                          else descend (join target_path name) g)
                       else
                         (if relative_path \<notin> set files then
                            (case removefile (target_fs self) (join target_path name) g of
                               Inl e \<Rightarrow> (Inl e, g)
                             | Inr g' \<Rightarrow> (Inr (), g'))
                          else (Inr (), g))))) \<and>
         (\<exists>f'. handle_request self (Sync dirs files) f = (Inr (), f') \<and>
               (\<forall>p. entry (tree f') p =
                      (if \<exists>r. p = rs @ r \<and> \<not> covered (tree f) rs dirs files r then None
                       else entry (tree f) p)))"
proof (intro conjI allI)
  fix descend target_path name and g :: memfs
  show "sync_item descend self dirs files target_path name g =
             (case relpath (target_cwd self) (join target_path name) (target_dir_path self) of
                Inl e \<Rightarrow> (Inl e, g)
              | Inr relative_path \<Rightarrow>
                  (case isdir (target_fs self) (join target_path name) g of
                     Inl e \<Rightarrow> (Inl e, g)
                   | Inr is_dir \<Rightarrow>
                       if is_dir then
                         (if relative_path \<notin> set dirs then
                            (case removedir (target_fs self) (join target_path name) g of
                               Inl e \<Rightarrow> (Inl e, g)
                             | Inr g' \<Rightarrow> (Inr (), g'))
                          else descend (join target_path name) g)
                       else
                         (if relative_path \<notin> set files then
                            (case removefile (target_fs self) (join target_path name) g of
                               Inl e \<Rightarrow> (Inl e, g)
                             | Inr g' \<Rightarrow> (Inr (), g'))
                          else (Inr (), g))))"
    by (rule sync_item_outcome)
next
  have d: "list_all valid_name ([]::string list)" by simp
  have e: "entry (tree f) (rs @ []) = Some KDir" using isd by (simp add: entry_KDir)
  have below: "list_all valid_name q \<and> length q < target_recursion_limit self"
    if "entry (tree f) (rs @ [] @ q) \<noteq> None" for q
  proof -
    from that obtain m where "lookup (Dir es) q = Some m"
      by (auto simp: entry_None lookup_append isd)
    from lookup_wf_height[OF this wf] h show ?thesis by simp
  qed
  from sync_directory_mem[OF fs root d e below, where dirs = dirs and files = files]
  obtain f' where run: "sync_directory (target_recursion_limit self) self (abs_path_of rs) dirs files f
                        = (Inr (), f')"
    and ent: "entry (tree f') = pruned (tree f) rs dirs files [] UNIV" by auto
  have "entry (tree f') p =
          (if \<exists>r. p = rs @ r \<and> \<not> covered (tree f) rs dirs files r then None
           else entry (tree f) p)" for p
  proof -
    have "(\<exists>r. p = rs @ r \<and> \<not> covered (tree f) rs dirs files r) \<longleftrightarrow>
          (\<exists>x q. p = rs @ x # q \<and> \<not> covered_from (tree f) rs dirs files [] (x # q))"
    proof
      assume "\<exists>r. p = rs @ r \<and> \<not> covered (tree f) rs dirs files r"
      then obtain r where r: "p = rs @ r" "\<not> covered_from (tree f) rs dirs files [] r"
        by (auto simp: covered_def)
      then have "r \<noteq> []" by auto
      then obtain x q where "r = x # q" by (cases r) auto
      with r show "\<exists>x q. p = rs @ x # q \<and> \<not> covered_from (tree f) rs dirs files [] (x # q)"
        by blast
    next
      assume "\<exists>x q. p = rs @ x # q \<and> \<not> covered_from (tree f) rs dirs files [] (x # q)"
      then show "\<exists>r. p = rs @ r \<and> \<not> covered (tree f) rs dirs files r"
        unfolding covered_def by blast
    qed
    then show ?thesis by (simp add: ent pruned_def)
  qed
  moreover have "handle_request self (Sync dirs files) f = (Inr (), f')"
    using run by (simp add: root(1))
  ultimately show "\<exists>f'. handle_request self (Sync dirs files) f = (Inr (), f') \<and>
               (\<forall>p. entry (tree f') p =
                      (if \<exists>r. p = rs @ r \<and> \<not> covered (tree f) rs dirs files r then None
                       else entry (tree f) p))" by blast
qed

theorem sync_deletes_exactly_the_uncovered_witness:
  "\<exists>f'. handle_request example_target (Sync [''a''] [''a/keep.txt'']) example_target_fs = (Inr (), f') \<and>
        entry (tree f') [''t'', ''a''] = Some KDir \<and>
        entry (tree f') [''t'', ''a'', ''keep.txt''] = Some (KFile ''kept'') \<and>
        entry (tree f') [''t'', ''a'', ''extra.txt''] = None \<and>
        entry (tree f') [''t'', ''x''] = None \<and>
        entry (tree f') [''t'', ''x'', ''y''] = None"
proof -
  let ?es = "[(''a'', Dir [(''extra.txt'', File ''junk''), (''keep.txt'', File ''kept'')]),
              (''x'', Dir [(''y'', Dir [])])]"
  let ?t = "tree example_target_fs"
  have fs: "target_fs example_target = mem True" by (simp add: example_target_def)
  have root: "target_dir_path example_target = abs_path_of [''t'']" by code_simp
  have names: "list_all valid_name [''t'']" by code_simp
  have isd: "lookup ?t [''t''] = Some (Dir ?es)" by code_simp
  have wf: "wf_node (Dir ?es)" by code_simp
  have h: "height (Dir ?es) < target_recursion_limit example_target" by code_simp
  from sync_deletes_exactly_the_uncovered[OF fs root names isd wf h, of "[''a'']" "[''a/keep.txt'']"]
  obtain f' where run: "handle_request example_target (Sync [''a''] [''a/keep.txt''])
                          example_target_fs = (Inr (), f')"
    and ent: "\<And>p. entry (tree f') p =
                (if \<exists>r. p = [''t''] @ r \<and> \<not> covered ?t [''t''] [''a''] [''a/keep.txt''] r then None
                 else entry ?t p)" by blast
  have c1: "covered ?t [''t''] [''a''] [''a/keep.txt''] [''a'']" by code_simp
  have c2: "covered ?t [''t''] [''a''] [''a/keep.txt''] [''a'', ''keep.txt'']" by code_simp
  have c3: "\<not> covered ?t [''t''] [''a''] [''a/keep.txt''] [''a'', ''extra.txt'']" by code_simp
  have c4: "\<not> covered ?t [''t''] [''a''] [''a/keep.txt''] [''x'']" by code_simp
  have c5: "\<not> covered ?t [''t''] [''a''] [''a/keep.txt''] [''x'', ''y'']" by code_simp
  have e1: "entry ?t [''t'', ''a''] = Some KDir" by code_simp
  have e2: "entry ?t [''t'', ''a'', ''keep.txt''] = Some (KFile ''kept'')" by code_simp
  have "entry (tree f') [''t'', ''a''] = Some KDir"
    using c1 e1 by (simp add: ent)
  moreover have "entry (tree f') [''t'', ''a'', ''keep.txt''] = Some (KFile ''kept'')"
    using c2 e2 by (simp add: ent)
  moreover have "entry (tree f') [''t'', ''a'', ''extra.txt''] = None"
    using c3 by (simp add: ent)
  moreover have "entry (tree f') [''t'', ''x''] = None"
    using c4 by (simp add: ent)
  moreover have "entry (tree f') [''t'', ''x'', ''y''] = None"
    using c5 by (simp add: ent)
  ultimately show ?thesis using run by blast
qed

theorem sync_deletes_advertised_file_counterexample:
  "relpath ''/'' ''/t/a/keep.txt'' ''/t'' = Inr ''a/keep.txt'' \<and>
   entry (tree example_target_fs) [''t'', ''a'', ''keep.txt''] = Some (KFile ''kept'') \<and>
   ''a/keep.txt'' \<in> set [''a/keep.txt''] \<and>
   fst (handle_request example_target (Sync [] [''a/keep.txt'']) example_target_fs) = Inr () \<and>
   entry (tree (snd (handle_request example_target (Sync [] [''a/keep.txt'']) example_target_fs)))
     [''t'', ''a'', ''keep.txt''] = None"
  by code_simp

section \<open>The watch sets as a tree\<close>






















end
